(* ===== verification/Prelude.thy ===== *)
theory Prelude
  imports Main "HOL-Library.Word" "HOL-Library.List_Lexorder" "HOL-Library.Sublist"
begin

text \<open>
  The shared vocabulary of the development: Go's byte slices and strings, the error values the
  program builds or compares, the outcome of a call, the built-in \<open>copy\<close>, decimal printing, and
  the collections of facts (\<open>go_simps\<close>, \<open>result_splits\<close>) that the component theories extend.

  \<^item> A Go \<^verbatim>\<open>[]byte\<close> or \<^verbatim>\<open>string\<close> is a list of 8-bit words. A nil slice and an empty slice are
    both \<open>[]\<close>: the program tells them apart only through \<open>len\<close> (the one place that compares a
    slice with nil, the GC index, uses an option).
  \<^item> \<open>int\<close>, \<open>int64\<close> and \<open>uint64\<close> values that come from the wire are \<open>64 word\<close>, read with \<open>sint\<close> or
    \<open>unat\<close>; lengths and indices of slices are \<open>nat\<close>.
  \<^item> An outcome is a value, an error, a run-time panic, or \<open>Loop\<close> for a call that never returns.
\<close>

unbundle bit_operations_syntax

named_theorems go_simps \<open>rewrite rules of the model's operations\<close>

type_synonym byte = "8 word"
type_synonym bytes = "byte list"

definition str :: "string \<Rightarrow> bytes" where
  "str s = map of_char s"

lemma length_str [simp]: "length (str s) = length s"
  by (simp add: str_def)

lemma str_append: "str (s @ t) = str s @ str t"
  by (simp add: str_def)

subsection \<open>Decimal printing\<close>

text \<open>\<^verbatim>\<open>strconv.FormatUint(v, 10)\<close> and \<^verbatim>\<open>fmt.Sprintf("%d", v)\<close> for an unsigned value.\<close>

fun format_nat :: "nat \<Rightarrow> bytes" where
  "format_nat n = (if n < 10 then [48 + word_of_nat n]
                   else format_nat (n div 10) @ [48 + word_of_nat (n mod 10)])"

declare format_nat.simps [simp del]

definition format_uint :: "64 word \<Rightarrow> bytes" where
  "format_uint v = format_nat (unat v)"

definition format_int :: "int \<Rightarrow> bytes" where
  "format_int i = (if i < 0 then 45 # format_nat (nat (- i)) else format_nat (nat i))"

text \<open>Reading the digits back, used only to show that printing loses nothing.\<close>

definition digits_value :: "bytes \<Rightarrow> nat" where
  "digits_value ds = foldl (\<lambda>a d. 10 * a + unat (d - 48)) 0 ds"

lemma unat_digit: "n < 10 \<Longrightarrow> unat (word_of_nat n :: byte) = n"
  by (simp add: unat_of_nat)

lemma digits_value_format_nat [simp]: "digits_value (format_nat n) = n"
proof (induction n rule: format_nat.induct)
  case (1 n)
  show ?case
  proof (cases "n < 10")
    case True
    then show ?thesis
      by (simp add: format_nat.simps [of n] digits_value_def unat_digit)
  next
    case False
    with 1 have "digits_value (format_nat (n div 10)) = n div 10" by simp
    with False show ?thesis
      by (simp add: format_nat.simps [of n] digits_value_def unat_digit)
  qed
qed

lemma format_nat_inject [simp]: "format_nat a = format_nat b \<longleftrightarrow> a = b"
  by (metis digits_value_format_nat)

lemma format_uint_inject [simp]: "format_uint a = format_uint b \<longleftrightarrow> a = b"
  by (simp add: format_uint_def word_unat_eq_iff)

lemma digit_range:
  assumes "n < 10"
  shows "48 \<le> (48 + word_of_nat n :: byte) \<and> (48 + word_of_nat n :: byte) \<le> 57"
  using assms by (simp add: word_le_nat_alt unat_word_ariths unat_digit)

lemma set_format_nat: "d \<in> set (format_nat n) \<Longrightarrow> 48 \<le> d \<and> d \<le> 57"
proof (induction n rule: format_nat.induct)
  case (1 n)
  show ?case
  proof (cases "n < 10")
    case True
    with 1 show ?thesis by (simp add: format_nat.simps [of n] digit_range)
  next
    case False
    with 1 show ?thesis
      by (auto simp: format_nat.simps [of n] digit_range)
  qed
qed

lemma format_nat_nonempty [simp]: "format_nat n \<noteq> []"
  by (subst format_nat.simps) simp

lemma slash_notin_format_uint [simp]: "47 \<notin> set (format_uint v)"
  using set_format_nat [of 47 "unat v"] by (auto simp: format_uint_def word_le_nat_alt)

subsection \<open>Error values\<close>

text \<open>
  The errors the code creates or compares with \<^verbatim>\<open>errors.Is\<close>. \<open>External\<close> is any other error of a
  library the program calls; the code only passes it on and prints it.
\<close>

datatype grpc_code = Canceled | Internal | OtherCode nat

datatype goerr =
    EOF                             \<comment> \<open>\<^verbatim>\<open>io.EOF\<close>\<close>
  | ErrUnexpectedEOF                \<comment> \<open>\<^verbatim>\<open>io.ErrUnexpectedEOF\<close>\<close>
  | ErrIntOverflow | ErrInvalidLength | ErrUnexpectedEndOfGroup
  | ErrEndGroup string              \<comment> \<open>\<^verbatim>\<open>proto: M: wiretype end group for non-group\<close>\<close>
  | ErrIllegalTag string int "64 word"
  | ErrWireType int string          \<comment> \<open>\<^verbatim>\<open>proto: wrong wireType = n for field F\<close>\<close>
  | ErrIllegalWireType int
  | BadgerErrKeyNotFound            \<comment> \<open>\<^verbatim>\<open>badger.ErrKeyNotFound\<close>\<close>
  | BadgerErrTxnTooBig              \<comment> \<open>\<^verbatim>\<open>badger.ErrTxnTooBig\<close>\<close>
  | ErrKeyNotFound                  \<comment> \<open>\<^verbatim>\<open>storage.ErrKeyNotFound\<close>\<close>
  | Errorf bytes                    \<comment> \<open>\<^verbatim>\<open>errors.New\<close>, \<^verbatim>\<open>fmt.Errorf\<close> without a wrapped error\<close>
  | Wrapf bytes goerr               \<comment> \<open>\<^verbatim>\<open>fmt.Errorf("text: %w", err)\<close>\<close>
  | StatusError grpc_code bytes     \<comment> \<open>\<^verbatim>\<open>status.Error(code, text)\<close>\<close>
  | DeadlineExceeded                \<comment> \<open>\<^verbatim>\<open>context.DeadlineExceeded\<close>\<close>
  | External bytes

text \<open>\<^verbatim>\<open>errors.Is(err, target)\<close> for a sentinel target: the chain of wrapped errors is searched.\<close>

fun errors_is :: "goerr \<Rightarrow> goerr \<Rightarrow> bool" where
  "errors_is (Wrapf t e) target = (Wrapf t e = target \<or> errors_is e target)"
| "errors_is e target = (e = target)"

fun code_text :: "grpc_code \<Rightarrow> string" where
  "code_text Canceled = ''Canceled''"
| "code_text Internal = ''Internal''"
| "code_text (OtherCode n) = ''Code''"

text \<open>\<^verbatim>\<open>err.Error()\<close>.\<close>

fun error_text :: "goerr \<Rightarrow> bytes" where
  "error_text EOF = str ''EOF''"
| "error_text ErrUnexpectedEOF = str ''unexpected EOF''"
| "error_text ErrIntOverflow = str ''proto: integer overflow''"
| "error_text ErrInvalidLength = str ''proto: negative length found during unmarshaling''"
| "error_text ErrUnexpectedEndOfGroup = str ''proto: unexpected end of group''"
| "error_text (ErrEndGroup m) = str (''proto: '' @ m @ '': wiretype end group for non-group'')"
| "error_text (ErrIllegalTag m f w) =
     str (''proto: '' @ m @ '': illegal tag '') @ format_int f @ str '' (wire type '' @
     format_uint w @ str '')''"
| "error_text (ErrWireType w f) =
     str ''proto: wrong wireType = '' @ format_int w @ str ('' for field '' @ f)"
| "error_text (ErrIllegalWireType w) = str ''proto: illegal wireType '' @ format_int w"
| "error_text BadgerErrKeyNotFound = str ''Key not found''"
| "error_text BadgerErrTxnTooBig = str ''Txn is too big to fit into one request''"
| "error_text ErrKeyNotFound = str ''key not found''"
| "error_text (Errorf t) = t"
| "error_text (Wrapf t e) = t @ str '': '' @ error_text e"
| "error_text (StatusError c t) =
     str (''rpc error: code = '' @ code_text c @ '' desc = '') @ t"
| "error_text DeadlineExceeded = str ''context deadline exceeded''"
| "error_text (External t) = t"

subsection \<open>Outcomes\<close>

datatype panic = IndexOutOfRange | NilDereference | MakeSliceLen | LibraryPanic | PanicError goerr

datatype 'a result = Ok 'a | Err goerr | Panic panic | Loop

fun bind_result :: "'a result \<Rightarrow> ('a \<Rightarrow> 'b result) \<Rightarrow> 'b result" where
  "bind_result (Ok x) f = f x"
| "bind_result (Err e) f = Err e"
| "bind_result (Panic p) f = Panic p"
| "bind_result Loop f = Loop"

lemma bind_result_Ok_iff:
  "bind_result r f = Ok y \<longleftrightarrow> (\<exists>x. r = Ok x \<and> f x = Ok y)"
  by (cases r) auto

lemma bind_result_assoc:
  "bind_result (bind_result r f) g = bind_result r (\<lambda>x. bind_result (f x) g)"
  by (cases r) auto

lemma bind_result_cong [fundef_cong]:
  assumes "r = r'" and "\<And>x. r' = Ok x \<Longrightarrow> f x = g x"
  shows "bind_result r f = bind_result r' g"
  using assms by (cases r') auto

definition guard_result :: "bool \<Rightarrow> goerr \<Rightarrow> unit result" where
  "guard_result b e = (if b then Ok () else Err e)"

text \<open>Outcomes of a call that always returns to its caller: a value or an error.\<close>

definition returns :: "'a result \<Rightarrow> bool" where
  "returns r \<longleftrightarrow> (case r of Ok _ \<Rightarrow> True | Err _ \<Rightarrow> True | _ \<Rightarrow> False)"

lemma returns_simps [simp]:
  "returns (Ok x)" "returns (Err e)" "\<not> returns (Panic p)" "\<not> returns Loop"
  by (simp_all add: returns_def)

lemma returns_bind: "returns r \<Longrightarrow> (\<And>x. r = Ok x \<Longrightarrow> returns (f x)) \<Longrightarrow> returns (bind_result r f)"
  by (cases r) auto

text \<open>
  Calls that also change a state return a pair; \<open>and_then\<close> goes on only after success, keeping the state
  an early return leaves behind. \<open>lift_err\<close> reads a call that returns only an \<open>error\<close>.
\<close>

fun and_then :: "'a result \<times> 's \<Rightarrow> ('a \<Rightarrow> 's \<Rightarrow> 'b result \<times> 's) \<Rightarrow> 'b result \<times> 's" where
  "and_then (Ok x, s) f = f x s"
| "and_then (Err e, s) f = (Err e, s)"
| "and_then (Panic p, s) f = (Panic p, s)"
| "and_then (Loop, s) f = (Loop, s)"

lemma and_then_Ok_iff:
  "and_then rs f = (Ok y, t) \<longleftrightarrow> (\<exists>x s. rs = (Ok x, s) \<and> f x s = (Ok y, t))"
  by (cases rs; cases "fst rs") auto

lemma and_then_inv:
  assumes "P (snd rs)" and "\<And>x s. P s \<Longrightarrow> P (snd (f x s))"
  shows "P (snd (and_then rs f))"
  using assms by (cases rs; cases "fst rs") auto

definition lift_err :: "goerr option \<Rightarrow> unit result" where
  "lift_err e = (case e of None \<Rightarrow> Ok () | Some e \<Rightarrow> Err e)"

lemma lift_err_simps [simp]:
  "lift_err None = Ok ()" "lift_err (Some e) = Err e"
  "lift_err x = Ok u \<longleftrightarrow> x = None" "Ok u = lift_err x \<longleftrightarrow> x = None" "lift_err x = Err e \<longleftrightarrow> x = Some e"
  "lift_err x \<noteq> Panic p" "lift_err x \<noteq> Loop"
  by (auto simp: lift_err_def split: option.splits)

definition lift_sum :: "goerr + 'a \<Rightarrow> 'a result" where
  "lift_sum x = (case x of Inl e \<Rightarrow> Err e | Inr v \<Rightarrow> Ok v)"

lemma lift_sum_simps [simp]:
  "lift_sum (Inl e) = Err e" "lift_sum (Inr v) = Ok v"
  "lift_sum x = Ok v \<longleftrightarrow> x = Inr v" "lift_sum x = Err e \<longleftrightarrow> x = Inl e"
  "lift_sum x \<noteq> Panic p" "lift_sum x \<noteq> Loop"
  by (auto simp: lift_sum_def split: sum.splits)

subsection \<open>Slices\<close>

text \<open>
  \<^verbatim>\<open>copy(dst[off:], src)\<close>: the new contents of the array behind \<open>dst\<close> and the number of bytes copied.
\<close>

definition go_copy :: "'a list \<Rightarrow> nat \<Rightarrow> 'a list \<Rightarrow> 'a list \<times> nat" where
  "go_copy dst off src =
     (let n = min (length dst - off) (length src)
      in (take off dst @ take n src @ drop (off + n) dst, n))"

lemma length_go_copy [simp]: "off \<le> length dst \<Longrightarrow> length (fst (go_copy dst off src)) = length dst"
  by (simp add: go_copy_def Let_def min_def)

lemma snd_go_copy [simp]: "snd (go_copy dst off src) = min (length dst - off) (length src)"
  by (simp add: go_copy_def Let_def)

lemma take_go_copy:
  "off \<le> length dst \<Longrightarrow> n = snd (go_copy dst off src) \<Longrightarrow>
   take (off + n) (fst (go_copy dst off src)) = take off dst @ take n src"
  by (simp add: go_copy_def Let_def min_def)

lemma drop_go_copy:
  "off \<le> length dst \<Longrightarrow> n = snd (go_copy dst off src) \<Longrightarrow>
   drop (off + n) (fst (go_copy dst off src)) = drop (off + n) dst"
  by (simp add: go_copy_def Let_def min_def)

text \<open>A stream cut into blocks of \<open>n\<close> bytes, the last one possibly shorter (and never empty).\<close>

function blocks :: "nat \<Rightarrow> 'a list \<Rightarrow> 'a list list" where
  "blocks n xs = (if n = 0 \<or> xs = [] then [] else take n xs # blocks n (drop n xs))"
  by pat_completeness auto
termination
  by (relation "measure (\<lambda>(n, xs). length xs)") (auto simp: diff_less)

declare blocks.simps [simp del]

lemma concat_blocks [simp]: "0 < n \<Longrightarrow> concat (blocks n xs) = xs"
  by (induction n xs rule: blocks.induct) (subst blocks.simps, auto)

lemma blocks_Nil [simp]: "blocks n [] = []"
  by (simp add: blocks.simps)

lemma blocks_short: "xs \<noteq> [] \<Longrightarrow> length xs \<le> n \<Longrightarrow> blocks n xs = [xs]"
  by (subst blocks.simps) (cases xs; auto)

lemma length_blocks: "c \<in> set (blocks n xs) \<Longrightarrow> length c \<le> n"
  by (induction n xs rule: blocks.induct) (subst (asm) (2) blocks.simps, auto split: if_splits)

lemma blocks_step: "0 < n \<Longrightarrow> n \<le> length xs \<Longrightarrow> blocks n xs = take n xs # blocks n (drop n xs)"
  by (subst blocks.simps) auto

text \<open>
  A stream cut the way a buffer of \<open>n\<close> bytes that is flushed at the end cuts it: full pieces, then the rest, which may be
  empty.
\<close>

function cut :: "nat \<Rightarrow> 'a list \<Rightarrow> 'a list list" where
  "cut n xs = (if n = 0 \<or> length xs < n then [xs] else take n xs # cut n (drop n xs))"
  by pat_completeness auto
termination
  by (relation "measure (\<lambda>(n, xs). length xs)") auto

declare cut.simps [simp del]

lemma cut_unique:
  assumes "\<forall>d \<in> set ds. length d = n" and "length r < n"
  shows "cut n (concat ds @ r) = ds @ [r]"
  using assms
proof (induction ds)
  case Nil
  then show ?case by (simp add: cut.simps)
next
  case (Cons d ds)
  then have "cut n (concat (d # ds) @ r) = d # cut n (concat ds @ r)"
    by (subst cut.simps) auto
  with Cons show ?case by simp
qed

lemma concat_cut [simp]: "concat (cut n xs) = xs"
  by (induction n xs rule: cut.induct) (subst cut.simps, auto)

lemma length_cut: "0 < n \<Longrightarrow> d \<in> set (cut n xs) \<Longrightarrow> length d \<le> n"
  by (induction n xs rule: cut.induct) (subst (asm) (2) cut.simps, auto split: if_splits)

subsection \<open>The order on keys\<close>

text \<open>
  \<^verbatim>\<open>bytes.Compare\<close> is the lexicographic order of \<^verbatim>\<open>List_Lexorder\<close>. Keys with a common prefix are contiguous in it.
\<close>

lemma append_less_append [simp]: "xs @ ys < xs @ (zs :: 'a::linorder list) \<longleftrightarrow> ys < zs"
  by (induction xs) auto

lemma less_append_same_length:
  "xs < (ys :: 'a::linorder list) \<Longrightarrow> length xs = length ys \<Longrightarrow> xs @ zs < ys @ us"
proof (induction xs arbitrary: ys)
  case (Cons x xs)
  then show ?case by (cases ys) auto
qed simp

lemma prefix_imp_le: "prefix p k \<Longrightarrow> p \<le> (k :: 'a::linorder list)"
  by (induction p arbitrary: k) (auto elim!: prefixE)

lemma prefix_between:
  "prefix p k' \<Longrightarrow> k < k' \<Longrightarrow> p \<le> k \<Longrightarrow> prefix p (k :: 'a::linorder list)"
proof (induction p arbitrary: k k')
  case (Cons x p)
  then show ?case by (cases k; cases k') (auto split: if_splits)
qed simp

text \<open>Seeking to a prefix and reading while it matches finds exactly the keys with the prefix.\<close>

definition seek_prefix :: "bytes \<Rightarrow> (bytes \<times> 'v) list \<Rightarrow> (bytes \<times> 'v) list" where
  "seek_prefix p items =
     takeWhile (\<lambda>kv. prefix p (fst kv)) (dropWhile (\<lambda>kv. fst kv < p) items)"

lemma takeWhile_prefix:
  fixes es :: "(bytes \<times> 'v) list"
  assumes "sorted_wrt (<) (map fst es)" and "\<forall>kv \<in> set es. p \<le> fst kv"
  shows "takeWhile (\<lambda>kv. prefix p (fst kv)) es = filter (\<lambda>kv. prefix p (fst kv)) es"
  using assms
proof (induction es)
  case (Cons e es)
  show ?case
  proof (cases "prefix p (fst e)")
    case False
    have "\<not> prefix p (fst kv)" if "kv \<in> set es" for kv
      using that Cons.prems False prefix_between [of p "fst kv" "fst e"] by auto
    with False show ?thesis by simp
  qed (use Cons in simp)
qed simp

lemma seek_prefix_filter:
  assumes "sorted_wrt (<) (map fst es)"
  shows "seek_prefix p es = filter (\<lambda>kv. prefix p (fst kv)) es"
  using assms
proof (induction es)
  case Nil
  then show ?case by (simp add: seek_prefix_def)
next
  case (Cons e es)
  show ?case
  proof (cases "fst e < p")
    case True
    then have "\<not> prefix p (fst e)" using prefix_imp_le [of p "fst e"] by auto
    with True Cons show ?thesis by (simp add: seek_prefix_def)
  next
    case False
    with Cons.prems have "\<forall>kv \<in> set (e # es). p \<le> fst kv" by auto
    with takeWhile_prefix [OF Cons.prems] False show ?thesis by (simp add: seek_prefix_def)
  qed
qed

text \<open>A sorted list of entries is determined by the map it stands for.\<close>

lemma filter_entries_eq:
  assumes "sorted_wrt (<) (map fst es)" and "map_of es = m"
  shows "filter (\<lambda>kv. P (fst kv)) es =
    map (\<lambda>k. (k, the (m k))) (sorted_list_of_set {k \<in> dom m. P (k :: bytes)})"
proof -
  let ?f = "filter (\<lambda>kv. P (fst kv)) es"
  have d: "distinct (map fst es)" using assms(1) by (simp add: strict_sorted_iff)
  have s: "sorted_wrt (<) (map fst ?f)"
    using assms(1) by (simp add: sorted_wrt_map sorted_wrt_filter)
  have "set (map fst ?f) = {k \<in> dom m. P k}"
    by (auto simp: dom_map_of_conv_image_fst simp flip: assms(2) intro: rev_image_eqI)
  then have k: "sorted_list_of_set {k \<in> dom m. P k} = map fst ?f"
    using sorted_list_of_set.idem_if_sorted_distinct [of "map fst ?f"] s
    by (simp only: strict_sorted_iff)
  have "(fst kv, the (m (fst kv))) = kv" if "kv \<in> set ?f" for kv
    using that assms(2) d map_of_is_SomeI [of es "fst kv" "snd kv"] by simp
  then have "map (\<lambda>kv. (fst kv, the (m (fst kv)))) ?f = ?f" by (rule map_idI)
  then show ?thesis unfolding k by (simp add: comp_def)
qed

end
