(* ===== verification/Wire.thy ===== *)
theory Wire
  imports Prelude
begin

text \<open>
  The wire primitives of \<^verbatim>\<open>proto/cp_vtproto.pb.go\<close>: \<open>sov\<close> and \<open>encodeVarint\<close>, which write backwards
  into a buffer of exactly the right size; and the field emitters the generated code repeats for each field. The decoding side
  is in \<^verbatim>\<open>Wire_Decode\<close>.

  The encoder writes through a pair (buffer, index) and panics where the Go code would index out of
  range. \<open>emits f bs\<close> says that a writer \<open>f\<close> puts exactly \<open>bs\<close> in front of the index; the lemmas about
  it reduce every marshaller to a plain concatenation.
\<close>

subsection \<open>Varints: size, reference encoding\<close>

text \<open>\<^verbatim>\<open>bits.Len64\<close>: the number of bits needed to represent the value.\<close>

fun bit_len :: "nat \<Rightarrow> nat" where
  "bit_len n = (if n = 0 then 0 else Suc (bit_len (n div 2)))"

declare bit_len.simps [simp del]

definition sov :: "64 word \<Rightarrow> nat" where
  "sov x = (bit_len (unat (x OR 1)) + 6) div 7"

lemma unat_shift7 [simp]: "unat (drop_bit 7 (v :: 64 word)) = unat v div 128"
  by (simp add: unat_drop_bit_eq, simp add: drop_bit_eq_div)

lemma word_128_le: "128 \<le> (v :: 64 word) \<longleftrightarrow> 128 \<le> unat v"
  by (simp add: word_le_nat_alt)

lemma word_less_128: "(v :: 64 word) < 128 \<longleftrightarrow> unat v < 128"
  by (simp add: word_less_nat_alt)

function varint :: "64 word \<Rightarrow> bytes" where
  "varint v = (if v < 128 then [ucast v] else ucast (v AND 127 OR 128) # varint (drop_bit 7 v))"
  by pat_completeness auto
termination
  by (relation "measure unat") (auto simp: word_less_128)

declare varint.simps [simp del]

lemma bit_len_pow: "2 ^ k \<le> n \<Longrightarrow> bit_len n = k + bit_len (n div 2 ^ k)"
proof (induction k arbitrary: n)
  case 0
  then show ?case by simp
next
  case (Suc k)
  then have "2 ^ k \<le> n div 2" and n: "0 < n"
    by (auto simp: less_eq_div_iff_mult_less_eq mult.commute intro: gr0I)
  from Suc.IH [OF this(1)] n show ?case
    by (simp add: bit_len.simps [of n] div_mult2_eq)
qed

lemma bit_len_128: "128 \<le> n \<Longrightarrow> bit_len n = 7 + bit_len (n div 128)"
  using bit_len_pow [of 7 n] by simp

lemma bit_len_small: "0 < n \<Longrightarrow> n < 128 \<Longrightarrow> 1 \<le> bit_len n \<and> bit_len n \<le> 7"
proof -
  have *: "n < 2 ^ k \<Longrightarrow> bit_len n \<le> k" for n k
  proof (induction k arbitrary: n)
    case 0
    then show ?case by (simp add: bit_len.simps)
  next
    case (Suc k)
    then have "bit_len (n div 2) \<le> k" by (simp add: less_mult_imp_div_less)
    then show ?case by (subst bit_len.simps) simp
  qed
  show "0 < n \<Longrightarrow> n < 128 \<Longrightarrow> ?thesis"
    using * [of n 7] by (subst bit_len.simps) simp
qed

lemma bit_len_or_one: "0 < n \<Longrightarrow> bit_len (n OR 1) = bit_len n"
proof -
  have "(n OR 1) div 2 = n div 2"
    using drop_bit_or [of 1 n 1] by (simp add: drop_bit_eq_div)
  moreover have "n OR 1 \<noteq> 0"
    using or_eq_0_iff [of n 1] by simp
  ultimately show "0 < n \<Longrightarrow> ?thesis"
    by (metis bit_len.simps less_not_refl)
qed

lemma sov_eq: "sov v = (if v = 0 then 1 else (bit_len (unat v) + 6) div 7)"
proof (cases "v = 0")
  case True
  then show ?thesis
    by (simp add: sov_def bit_len.simps [of "Suc 0"] bit_len.simps [of 0])
next
  case False
  then show ?thesis
    using bit_len_or_one [of "unat v"] by (simp add: sov_def unsigned_or_eq unat_gt_0)
qed

lemma length_varint: "length (varint v) = sov v"
proof (induction v rule: varint.induct)
  case (1 v)
  show ?case
  proof (cases "v < 128")
    case True
    then show ?thesis
      using bit_len_small [of "unat v"]
      by (auto simp: varint.simps [of v] sov_eq unat_gt_0 word_less_nat_alt)
  next
    case False
    then have v: "128 \<le> unat v" by (simp add: word_less_128)
    have "drop_bit 7 v \<noteq> 0"
    proof
      assume "drop_bit 7 v = 0"
      with unat_shift7 [of v] have "unat v div 128 = 0" by simp
      with v show False by (simp add: div_eq_0_iff)
    qed
    moreover from v have "v \<noteq> 0" by auto
    ultimately show ?thesis
      using 1 False v by (simp add: varint.simps [of v] sov_eq bit_len_128)
  qed
qed

lemma varint_nonempty [simp]: "varint v \<noteq> []"
  by (subst varint.simps) simp

lemma sov_pos [simp]: "0 < sov v"
  by (simp flip: length_varint)

lemma sov_le: "sov v \<le> 10"
proof -
  have *: "n < 2 ^ k \<Longrightarrow> bit_len n \<le> k" for n k
  proof (induction k arbitrary: n)
    case 0
    then show ?case by (simp add: bit_len.simps)
  next
    case (Suc k)
    then have "bit_len (n div 2) \<le> k" by (simp add: less_mult_imp_div_less)
    then show ?case by (subst bit_len.simps) simp
  qed
  have "bit_len (unat (v OR 1)) \<le> 64" using * [of "unat (v OR 1)" 64] unsigned_less [of "v OR 1"] by simp
  then show ?thesis by (simp add: sov_def)
qed

subsection \<open>Backward writers\<close>

type_synonym enc = "bytes \<times> nat \<Rightarrow> (bytes \<times> nat) result"

definition emits :: "enc \<Rightarrow> bytes \<Rightarrow> bool" where
  "emits f bs \<longleftrightarrow> (\<forall>d i. length bs \<le> i \<longrightarrow> i \<le> length d \<longrightarrow>
     f (d, i) = Ok (take (i - length bs) d @ bs @ drop i d, i - length bs))"

text \<open>\<^verbatim>\<open>i--; dAtA[i] = b\<close>\<close>

fun put_byte :: "byte \<Rightarrow> enc" where
  "put_byte b (d, i) =
     (if i = 0 \<or> length d < i then Panic IndexOutOfRange else Ok (d[i - 1 := b], i - 1))"

text \<open>\<^verbatim>\<open>i -= len(x); copy(dAtA[i:], x)\<close>\<close>

fun put_bytes :: "bytes \<Rightarrow> enc" where
  "put_bytes x (d, i) =
     (if i < length x \<or> length d < i - length x then Panic IndexOutOfRange
      else Ok (fst (go_copy d (i - length x) x), i - length x))"

text \<open>The loop of \<open>encodeVarint\<close>, writing upwards from \<open>offset\<close>.\<close>

function encode_loop :: "bytes \<Rightarrow> nat \<Rightarrow> 64 word \<Rightarrow> bytes result" where
  "encode_loop d offset v =
     (if 128 \<le> v then
        (if length d \<le> offset then Panic IndexOutOfRange
         else encode_loop (d[offset := ucast (v AND 127 OR 128)]) (Suc offset) (drop_bit 7 v))
      else if length d \<le> offset then Panic IndexOutOfRange
      else Ok (d[offset := ucast v]))"
  by pat_completeness auto
termination
  by (relation "measure (\<lambda>(d, offset, v). unat v)")
     (auto simp: word_128_le)

declare encode_loop.simps [simp del]

fun encodeVarint :: "64 word \<Rightarrow> enc" where
  "encodeVarint v (d, offset) =
     (if offset < sov v then Panic IndexOutOfRange
      else bind_result (encode_loop d (offset - sov v) v) (\<lambda>d'. Ok (d', offset - sov v)))"

definition emit_seq :: "enc \<Rightarrow> enc \<Rightarrow> enc" where
  "emit_seq f g = (\<lambda>s. bind_result (f s) g)"

definition emit_nothing :: enc where
  "emit_nothing = Ok"

fun emit_all :: "enc list \<Rightarrow> enc" where
  "emit_all [] = emit_nothing"
| "emit_all (f # fs) = emit_seq f (emit_all fs)"

lemma emits_nothing [intro, simp]: "emits emit_nothing []"
  by (simp add: emits_def emit_nothing_def)

lemma emits_seq [intro]:
  assumes "emits f a" and "emits g b"
  shows "emits (emit_seq f g) (b @ a)"
  unfolding emits_def
proof (intro allI impI)
  fix d :: bytes and i
  assume i: "length (b @ a) \<le> i" "i \<le> length d"
  let ?d = "take (i - length a) d @ a @ drop i d"
  from assms(1) i have "f (d, i) = Ok (?d, i - length a)"
    by (simp add: emits_def)
  moreover have "g (?d, i - length a) =
      Ok (take (i - length a - length b) ?d @ b @ drop (i - length a) ?d, i - length a - length b)"
    using assms(2) i by (simp add: emits_def)
  ultimately show "emit_seq f g (d, i) =
      Ok (take (i - length (b @ a)) d @ (b @ a) @ drop i d, i - length (b @ a))"
    using i by (simp add: emit_seq_def add.commute)
qed

lemma emits_all:
  "list_all2 emits fs bss \<Longrightarrow> emits (emit_all fs) (concat (rev bss))"
proof (induction fs bss rule: list_all2_induct)
  case Nil
  then show ?case by simp
next
  case (Cons f fs b bss)
  then show ?case using emits_seq [of f b "emit_all fs"] by simp
qed

lemma emits_put_byte [intro]: "emits (put_byte b) [b]"
  unfolding emits_def
proof (intro allI impI)
  fix d :: bytes and i
  assume i: "length [b] \<le> i" "i \<le> length d"
  then have "d[i - 1 := b] = take (i - 1) d @ b # drop i d"
    by (subst upd_conv_take_nth_drop) auto
  with i show "put_byte b (d, i) = Ok (take (i - length [b]) d @ [b] @ drop i d, i - length [b])"
    by auto
qed

lemma emits_put_bytes [intro]: "emits (put_bytes x) x"
  by (auto simp: emits_def go_copy_def Let_def min_def)

lemma encode_loop_varint:
  "offset + length (varint v) \<le> length d \<Longrightarrow>
   encode_loop d offset v =
     Ok (take offset d @ varint v @ drop (offset + length (varint v)) d)"
proof (induction d offset v rule: encode_loop.induct)
  case (1 d offset v)
  have off: "offset < length d" using "1.prems" by (cases "varint v") auto
  show ?case
  proof (cases "128 \<le> v")
    case True
    let ?b = "ucast (v AND 127 OR 128) :: byte"
    have vi: "varint v = ?b # varint (drop_bit 7 v)"
      using True by (subst varint.simps) (simp add: leD)
    with "1.prems" True off show ?thesis
      using "1.IH" [OF True] by (simp add: encode_loop.simps [of d] upd_conv_take_nth_drop add.commute)
  next
    case False
    moreover from False have "v < 128" by simp
    ultimately show ?thesis
      using off by (simp add: encode_loop.simps [of d] varint.simps [of v] upd_conv_take_nth_drop)
  qed
qed

lemma emits_encodeVarint [intro]: "emits (encodeVarint v) (varint v)"
  by (auto simp: emits_def length_varint encode_loop_varint)


subsection \<open>Field emitters\<close>

text \<open>
  The three shapes of scalar field a marshaller writes, each guarded by the field being set, and the
  bytes they stand for. A field is written back to front: payload, then length, then tag.
\<close>

definition emit_uint_field :: "byte \<Rightarrow> 64 word \<Rightarrow> enc" where
  "emit_uint_field tag v =
     (if v \<noteq> 0 then emit_seq (encodeVarint v) (put_byte tag) else emit_nothing)"

definition emit_bytes_always :: "byte \<Rightarrow> bytes \<Rightarrow> enc" where
  "emit_bytes_always tag x =
     emit_seq (put_bytes x) (emit_seq (encodeVarint (word_of_nat (length x))) (put_byte tag))"

definition emit_bytes_field :: "byte \<Rightarrow> bytes \<Rightarrow> enc" where
  "emit_bytes_field tag x = (if length x > 0 then emit_bytes_always tag x else emit_nothing)"

definition emit_bool_field :: "byte \<Rightarrow> bool \<Rightarrow> enc" where
  "emit_bool_field tag b =
     (if b then emit_seq (put_byte (if b then 1 else 0)) (put_byte tag) else emit_nothing)"

definition uint_field :: "byte \<Rightarrow> 64 word \<Rightarrow> bytes" where
  "uint_field tag v = (if v = 0 then [] else tag # varint v)"

definition bytes_always :: "byte \<Rightarrow> bytes \<Rightarrow> bytes" where
  "bytes_always tag x = tag # varint (word_of_nat (length x)) @ x"

definition bytes_field :: "byte \<Rightarrow> bytes \<Rightarrow> bytes" where
  "bytes_field tag x = (if x = [] then [] else bytes_always tag x)"

definition bool_field :: "byte \<Rightarrow> bool \<Rightarrow> bytes" where
  "bool_field tag b = (if b then [tag, 1] else [])"

lemma emits_uint_field [intro]: "emits (emit_uint_field tag v) (uint_field tag v)"
  using emits_seq [OF emits_encodeVarint emits_put_byte, of v tag]
  by (auto simp: emit_uint_field_def uint_field_def)

lemma emits_bytes_always [intro]: "emits (emit_bytes_always tag x) (bytes_always tag x)"
  using emits_seq [OF emits_put_bytes emits_seq [OF emits_encodeVarint emits_put_byte],
      of x "word_of_nat (length x)" tag]
  by (simp add: emit_bytes_always_def bytes_always_def)

lemma emits_bytes_field [intro]: "emits (emit_bytes_field tag x) (bytes_field tag x)"
  by (auto simp: emit_bytes_field_def bytes_field_def)

lemma emits_bool_field [intro]: "emits (emit_bool_field tag b) (bool_field tag b)"
  using emits_seq [OF emits_put_byte emits_put_byte, of 1 tag]
  by (auto simp: emit_bool_field_def bool_field_def)

lemmas emits_fields = emits_uint_field emits_bytes_always emits_bytes_field emits_bool_field
  emits_put_bytes

text \<open>The contributions of the same fields to \<open>SizeVT\<close>.\<close>

definition size_uint_field :: "64 word \<Rightarrow> nat" where
  "size_uint_field v = (if v \<noteq> 0 then 1 + sov v else 0)"

definition size_bytes_always :: "bytes \<Rightarrow> nat" where
  "size_bytes_always x = 1 + length x + sov (word_of_nat (length x))"

definition size_bytes_field :: "bytes \<Rightarrow> nat" where
  "size_bytes_field x = (if length x > 0 then size_bytes_always x else 0)"

definition size_bool_field :: "bool \<Rightarrow> nat" where
  "size_bool_field b = (if b then 2 else 0)"

lemma length_fields [simp]:
  "length (uint_field tag v) = size_uint_field v"
  "length (bytes_always tag x) = size_bytes_always x"
  "length (bytes_field tag x) = size_bytes_field x"
  "length (bool_field tag b) = size_bool_field b"
  by (simp_all add: uint_field_def bytes_always_def bytes_field_def bool_field_def length_varint
      size_uint_field_def size_bytes_always_def size_bytes_field_def size_bool_field_def)

text \<open>
  \<open>MarshalVT\<close>: allocate \<open>SizeVT\<close> bytes, write them backwards, return the written tail. It gives
  exactly the bytes the writer emits as soon as the size is right; with a wrong size it would panic
  or leave a gap.
\<close>

lemma size_field_le: "size_uint_field v \<le> 11" "size_bytes_field x \<le> length x + 11" "size_bool_field b \<le> 2"
  using sov_le [of v] sov_le [of "word_of_nat (length x)"]
  by (simp_all add: size_uint_field_def size_bytes_field_def size_bytes_always_def size_bool_field_def)

definition MarshalVT :: "nat \<Rightarrow> enc \<Rightarrow> bytes result" where
  "MarshalVT n f = bind_result (f (replicate n 0, n)) (\<lambda>(d, i). Ok (take (length d - i) d))"

lemma MarshalVT_emits: "emits f bs \<Longrightarrow> n = length bs \<Longrightarrow> MarshalVT n f = Ok bs"
  by (simp add: MarshalVT_def emits_def)

end
