(* ===== verification/Wire_Decode.thy ===== *)
theory Wire_Decode
  imports Wire
begin

text \<open>
  The decoding side of \<^verbatim>\<open>proto/cp_vtproto.pb.go\<close>: the varint loop and the length-delimited read that
  every \<open>UnmarshalVT\<close> inlines, \<open>skip\<close>, and the tag-dispatch loop the \<open>UnmarshalVT\<close> methods share. An
  index sum that exceeds \<open>2^63 - 1\<close> is negative as a Go \<open>int\<close>, so the checks \<^verbatim>\<open>postIndex < 0\<close> and
  \<^verbatim>\<open>iNdEx < 0\<close> are written as \<open>2 ^ 63 \<le> sum\<close>.

  \<open>consumes F u bs\<close> says that the loop \<open>F\<close>, standing before the bytes \<open>bs\<close>, moves past them and applies
  \<open>u\<close> to the message: the mirror image of \<open>emits\<close>.
\<close>

subsection \<open>Varints\<close>

function dec_loop :: "bytes \<Rightarrow> nat \<Rightarrow> nat \<Rightarrow> 'a::len word \<Rightarrow> ('a word \<times> nat) result" where
  "dec_loop d i shift acc =
     (if 64 \<le> shift then Err ErrIntOverflow
      else if length d \<le> i then Err ErrUnexpectedEOF
      else if d ! i < 128 then Ok (acc OR push_bit shift (ucast (d ! i AND 127)), Suc i)
      else dec_loop d (Suc i) (shift + 7) (acc OR push_bit shift (ucast (d ! i AND 127))))"
  by pat_completeness auto
termination
  by (relation "measure (\<lambda>(d, i, shift, acc). 64 - shift)") auto

declare dec_loop.simps [simp del]

definition decodeVarint :: "bytes \<Rightarrow> nat \<Rightarrow> ('a::len word \<times> nat) result" where
  "decodeVarint d i = dec_loop d i 0 0"

lemma dec_loop_progress: "dec_loop d i s a = Ok (w, j) \<Longrightarrow> i < j \<and> j \<le> length d"
proof (induction d i s a rule: dec_loop.induct)
  case (1 d i s a)
  show ?case
    using "1.prems" "1.IH" by (subst (asm) dec_loop.simps) (auto split: if_splits)
qed

lemma dec_loop_returns: "returns (dec_loop d i s a)"
  by (induction d i s a rule: dec_loop.induct) (subst dec_loop.simps, auto)

lemma decodeVarint_progress: "decodeVarint d i = Ok (w, j) \<Longrightarrow> i < j \<and> j \<le> length d"
  unfolding decodeVarint_def by (rule dec_loop_progress)

lemma decodeVarint_returns [simp]: "returns (decodeVarint d i)"
  unfolding decodeVarint_def by (rule dec_loop_returns)

text \<open>A varint occupies at most ten bytes.\<close>

lemma dec_loop_width:
  "dec_loop d i s a = Ok (w, j) \<Longrightarrow> s \<le> 70 \<Longrightarrow> s + 7 * (j - i) \<le> 70"
proof (induction d i s a rule: dec_loop.induct)
  case (1 d i s a)
  show ?case
  proof (cases "64 \<le> s \<or> length d \<le> i \<or> d ! i < 128")
    case True
    with "1.prems" show ?thesis by (subst (asm) dec_loop.simps) (auto split: if_splits)
  next
    case False
    let ?a = "a OR push_bit s (ucast (d ! i AND 127))"
    from False "1.prems" have r: "dec_loop d (Suc i) (s + 7) ?a = Ok (w, j)"
      by (subst (asm) dec_loop.simps) simp
    with False have "s + 7 + 7 * (j - Suc i) \<le> 70"
      by (intro "1.IH") auto
    with dec_loop_progress [OF r] show ?thesis by simp
  qed
qed

lemma bit_127_byte: "bit (127 :: byte) k \<longleftrightarrow> k < 7"
proof -
  have "bit (mask 7 :: byte) k \<longleftrightarrow> k < 7" by (simp only: bit_mask_iff) auto
  then show ?thesis by (simp add: mask_eq_exp_minus_1 del: bit_numeral_word_iff)
qed

lemma bit_127_word: "bit (127 :: 64 word) k \<longleftrightarrow> k < 7"
proof -
  have "bit (mask 7 :: 64 word) k \<longleftrightarrow> k < 7" by (simp only: bit_mask_iff) auto
  then show ?thesis by (simp add: mask_eq_exp_minus_1 del: bit_numeral_word_iff)
qed

lemma bit_128_word: "bit (128 :: 64 word) k \<longleftrightarrow> k = 7"
proof -
  have "bit (2 ^ 7 :: 64 word) k \<longleftrightarrow> k = 7" by (simp only: bit_exp_iff) auto
  then show ?thesis by (simp del: bit_numeral_word_iff)
qed

lemma low7_bits:
  fixes v :: "64 word" and a :: "'a::len word"
  shows "(a OR push_bit s (ucast (ucast (v AND 127 OR 128) AND 127 :: byte))) OR
           push_bit (s + 7) (ucast (drop_bit 7 v)) = a OR push_bit s (ucast v)"
proof (rule bit_word_eqI)
  fix n
  assume n: "n < LENGTH('a)"
  show "bit ((a OR push_bit s (ucast (ucast (v AND 127 OR 128) AND 127 :: byte))) OR
      push_bit (s + 7) (ucast (drop_bit 7 v))) n = bit (a OR push_bit s (ucast v)) n"
    using n by (cases "n < s + 7")
      (auto simp: bit_or_iff bit_and_iff bit_push_bit_iff bit_ucast_iff bit_drop_bit_eq
        bit_127_byte bit_127_word bit_128_word
        simp del: push_bit_or bit_numeral_word_iff dest: bit_imp_le_length)
qed

lemma low7_top: "\<not> (ucast (v AND 127 OR 128 :: 64 word) :: byte) < 128"
proof -
  have "(ucast (v AND 127 OR 128 :: 64 word) :: byte) = 128 OR ucast (v AND 127)"
    by (simp add: unsigned_or_eq or.commute)
  then show ?thesis by (metis le_word_or2 not_less)
qed

lemma small_byte:
  assumes "v < (128 :: 64 word)"
  shows "(ucast v :: byte) < 128" and "ucast v AND 127 = (ucast v :: byte)"
    and "(ucast (ucast v :: byte) :: 'a::len word) = ucast v"
proof -
  have u: "unat (ucast v :: byte) = unat v"
    using assms by (simp add: unsigned_ucast_eq word_less_128 take_bit_nat_eq_self)
  then show lt: "(ucast v :: byte) < 128"
    using assms by (simp add: word_less_nat_alt)
  have "take_bit 7 (ucast v :: byte) = ucast v"
    using lt by (simp add: word_unat_eq_iff unsigned_take_bit_eq word_less_nat_alt take_bit_nat_eq_self)
  then show "ucast v AND 127 = (ucast v :: byte)"
    by (simp add: take_bit_eq_mask mask_eq_exp_minus_1)
  show "(ucast (ucast v :: byte) :: 'a::len word) = ucast v"
    using u by (metis of_nat_unat)
qed

lemma dec_loop_varint:
  fixes a :: "'a::len word"
  assumes "s < 64" and "unat v < 2 ^ (64 - s)"
  shows "dec_loop (pre @ varint v @ post) (length pre) s a =
           Ok (a OR push_bit s (ucast v), length pre + length (varint v))"
  using assms
proof (induction v arbitrary: pre s a rule: varint.induct)
  case (1 v)
  show ?case
  proof (cases "v < 128")
    case True
    with 1 small_byte [OF True] show ?thesis
      by (simp add: varint.simps [of v] dec_loop.simps [of _ _ s] small_byte(3) [OF True])
  next
    case False
    let ?b = "ucast (v AND 127 OR 128) :: byte"
    let ?a = "a OR push_bit s (ucast (?b AND 127)) :: 'a word"
    have v: "128 \<le> unat v" using False by (simp add: word_less_128)
    have s7: "s + 7 < 64"
    proof (rule ccontr)
      assume "\<not> s + 7 < 64"
      then have "(2 :: nat) ^ (64 - s) \<le> 2 ^ 7" by (intro power_increasing) auto
      with v "1.prems" show False by simp
    qed
    then have "(2 :: nat) ^ (64 - s) = 2 ^ (64 - (s + 7)) * 128"
      using power_add [of "2 :: nat" "64 - (s + 7)" 7] by simp
    with "1.prems" have "unat (drop_bit 7 v) < 2 ^ (64 - (s + 7))"
      by (simp add: less_mult_imp_div_less)
    with False s7 have "dec_loop ((pre @ [?b]) @ varint (drop_bit 7 v) @ post) (length (pre @ [?b])) (s + 7) ?a
       = Ok (?a OR push_bit (s + 7) (ucast (drop_bit 7 v)), length (pre @ [?b]) + length (varint (drop_bit 7 v)))"
      by (intro "1.IH") auto
    with False s7 low7_top [of v] show ?thesis
      by (simp add: varint.simps [of v] dec_loop.simps [of _ "length pre"] low7_bits)
  qed
qed

lemma unat_64: "unat (v :: 64 word) < 2 ^ 64"
  using unsigned_less [of v] by simp

lemma decodeVarint_varint:
  "decodeVarint (pre @ varint v @ post) (length pre) =
     Ok (ucast v :: 'a::len word, length pre + length (varint v))"
  using dec_loop_varint [of 0 v pre post 0] unat_64 [of v] by (simp add: decodeVarint_def)

subsection \<open>Length-delimited fields\<close>

text \<open>The bounds \<open>iNdEx\<close> and \<open>postIndex\<close> of the payload, and the payload itself.\<close>

definition read_span :: "bytes \<Rightarrow> nat \<Rightarrow> (nat \<times> nat) result" where
  "read_span d i =
     bind_result (decodeVarint d i) (\<lambda>(len :: 64 word, i1).
       if sint len < 0 then Err ErrInvalidLength
       else if 2 ^ 63 \<le> i1 + unat len then Err ErrInvalidLength
       else if length d < i1 + unat len then Err ErrUnexpectedEOF
       else Ok (i1, i1 + unat len))"

definition read_slice :: "bytes \<Rightarrow> nat \<Rightarrow> (bytes \<times> nat) result" where
  "read_slice d i =
     bind_result (read_span d i) (\<lambda>(i1, postIndex).
       Ok (take (postIndex - i1) (drop i1 d), postIndex))"

lemma read_span_progress: "read_span d i = Ok (a, j) \<Longrightarrow> i < j \<and> j \<le> length d"
  by (auto simp: read_span_def bind_result_Ok_iff split: if_splits dest!: decodeVarint_progress)

lemma read_slice_progress: "read_slice d i = Ok (x, j) \<Longrightarrow> i < j \<and> j \<le> length d"
  by (auto simp: read_slice_def bind_result_Ok_iff dest: read_span_progress)

lemma read_span_returns [simp]: "returns (read_span d i)"
  unfolding read_span_def by (rule returns_bind) (auto split: prod.splits)

lemma read_slice_returns [simp]: "returns (read_slice d i)"
  unfolding read_slice_def by (rule returns_bind) (auto split: prod.splits)

lemma sint_word_of_nat: "n < 2 ^ 63 \<Longrightarrow> sint (word_of_nat n :: 64 word) = int n"
  by (simp add: signed_of_nat signed_take_bit_int_eq_self)

lemma unat_word_of_nat64: "n < 2 ^ 64 \<Longrightarrow> unat (word_of_nat n :: 64 word) = n"
  by (simp add: unat_of_nat)

lemma read_span_at:
  assumes "length (pre @ varint (word_of_nat (length x)) @ x @ post) < 2 ^ 63"
  shows "read_span (pre @ varint (word_of_nat (length x)) @ x @ post) (length pre) =
           Ok (length (pre @ varint (word_of_nat (length x))),
               length (pre @ varint (word_of_nat (length x)) @ x))"
proof -
  let ?n = "word_of_nat (length x) :: 64 word"
  have "decodeVarint (pre @ varint ?n @ x @ post) (length pre) = Ok (?n, length pre + length (varint ?n))"
    using decodeVarint_varint [where 'a = 64, of pre ?n "x @ post"] by simp
  moreover have "unat ?n = length x" and "\<not> sint ?n < 0"
    using assms by (simp_all add: unat_word_of_nat64 sint_word_of_nat)
  ultimately show ?thesis
    using assms by (simp add: read_span_def)
qed

lemma read_slice_at:
  assumes "length (pre @ varint (word_of_nat (length x)) @ x @ post) < 2 ^ 63"
  shows "read_slice (pre @ varint (word_of_nat (length x)) @ x @ post) (length pre) =
           Ok (x, length (pre @ varint (word_of_nat (length x)) @ x))"
  by (simp only: read_slice_def read_span_at [OF assms]) simp

subsection \<open>Skipping an unknown field\<close>

text \<open>One step of \<open>skip\<close> after the tag: the index past the field's payload and the group depth.\<close>

definition skip_field :: "bytes \<Rightarrow> 64 word \<Rightarrow> nat \<Rightarrow> nat \<Rightarrow> (nat \<times> nat) result" where
  "skip_field d wireType i depth =
     (if wireType = 0 then
        bind_result (decodeVarint d i) (\<lambda>(_ :: 64 word, i'). Ok (i', depth))
      else if wireType = 1 then Ok (i + 8, depth)
      else if wireType = 2 then
        bind_result (decodeVarint d i) (\<lambda>(len :: 64 word, i').
          if sint len < 0 then Err ErrInvalidLength else Ok (i' + unat len, depth))
      else if wireType = 3 then Ok (i, Suc depth)
      else if wireType = 4 then
        (if depth = 0 then Err ErrUnexpectedEndOfGroup else Ok (i, depth - 1))
      else if wireType = 5 then Ok (i + 4, depth)
      else Err (ErrIllegalWireType (sint wireType)))"

lemma skip_field_mono: "skip_field d w i depth = Ok (j, depth') \<Longrightarrow> i \<le> j"
  by (auto simp: skip_field_def bind_result_Ok_iff split: if_splits dest!: decodeVarint_progress)

lemma skip_field_returns [simp]: "returns (skip_field d w i depth)"
  by (auto simp: skip_field_def intro!: returns_bind)

function skip_loop :: "bytes \<Rightarrow> nat \<Rightarrow> nat \<Rightarrow> nat result" where
  "skip_loop d i depth =
     (if length d \<le> i then Err ErrUnexpectedEOF
      else bind_result (decodeVarint d i) (\<lambda>(wire :: 64 word, i1).
        bind_result (skip_field d (wire AND 7) i1 depth) (\<lambda>(i2, depth').
          if 2 ^ 63 \<le> i2 then Err ErrInvalidLength
          else if depth' = 0 then Ok i2
          else skip_loop d i2 depth')))"
  by pat_completeness auto
termination
  by (relation "measure (\<lambda>(d, i, depth). length d - i)")
     (auto dest!: decodeVarint_progress skip_field_mono)

declare skip_loop.simps [simp del]

definition skip :: "bytes \<Rightarrow> nat result" where
  "skip d = skip_loop d 0 0"

lemma skip_loop_progress: "skip_loop d i depth = Ok n \<Longrightarrow> i < n"
proof (induction d i depth rule: skip_loop.induct)
  case (1 d i depth)
  from "1.prems" obtain wire :: "64 word" and i1 i2 depth'
    where i: "\<not> length d \<le> i" and w: "decodeVarint d i = Ok (wire, i1)"
      and f: "skip_field d (wire AND 7) i1 depth = Ok (i2, depth')"
      and r: "\<not> 2 ^ 63 \<le> i2" "(if depth' = 0 then Ok i2 else skip_loop d i2 depth') = Ok n"
    by (subst (asm) skip_loop.simps) (auto simp: bind_result_Ok_iff split: if_splits)
  have "i < i2"
    using decodeVarint_progress [OF w] skip_field_mono [OF f] by simp
  moreover have "i2 \<le> n"
    using r "1.IH" [OF i w refl f refl] by (cases "depth' = 0") auto
  ultimately show ?case by simp
qed

lemma skip_pos: "skip d = Ok n \<Longrightarrow> 0 < n"
  unfolding skip_def by (rule skip_loop_progress)

lemma skip_loop_returns: "returns (skip_loop d i depth)"
proof (induction d i depth rule: skip_loop.induct)
  case (1 d i depth)
  show ?case
    by (subst skip_loop.simps) (auto intro!: returns_bind 1)
qed

lemma skip_returns [simp]: "returns (skip d)"
  unfolding skip_def by (rule skip_loop_returns)

subsection \<open>The field loop of \<open>UnmarshalVT\<close>\<close>

text \<open>
  The loop common to all \<open>UnmarshalVT\<close> methods: read a tag, reject end-group and non-positive field
  numbers, hand the field to the message's switch (\<open>None\<close> is its default branch, which keeps the raw
  bytes of an unknown field), go on behind it. \<open>fld m fieldNum wireType d i\<close> is the switch, \<open>unk\<close> appends to
  \<open>unknownFields\<close>. An iteration that did not move the index forward would repeat for ever, hence \<open>Loop\<close>;
  \<open>fields_loop_returns\<close> shows that this never happens.
\<close>

type_synonym 'm fields = "'m \<Rightarrow> int \<Rightarrow> 64 word \<Rightarrow> bytes \<Rightarrow> nat \<Rightarrow> ('m \<times> nat) result option"

definition unknown_field :: "(bytes \<Rightarrow> 'm \<Rightarrow> 'm) \<Rightarrow> 'm \<Rightarrow> bytes \<Rightarrow> nat \<Rightarrow> ('m \<times> nat) result" where
  "unknown_field unk m d preIndex =
     bind_result (skip (drop preIndex d)) (\<lambda>skippy.
       if 2 ^ 63 \<le> preIndex + skippy then Err ErrInvalidLength
       else if length d < preIndex + skippy then Err ErrUnexpectedEOF
       else Ok (unk (take skippy (drop preIndex d)) m, preIndex + skippy))"

definition tag_field :: "64 word \<Rightarrow> int" where
  "tag_field wire = sint (ucast (drop_bit 3 wire) :: 32 word)"

definition tag_type :: "64 word \<Rightarrow> 64 word" where
  "tag_type wire = wire AND 7"

definition one_field ::
  "string \<Rightarrow> 'm fields \<Rightarrow> (bytes \<Rightarrow> 'm \<Rightarrow> 'm) \<Rightarrow> 'm \<Rightarrow> bytes \<Rightarrow> nat \<Rightarrow> ('m \<times> nat) result" where
  "one_field name fld unk m d i =
     bind_result (decodeVarint d i) (\<lambda>(wire, i1).
       if tag_type wire = 4 then Err (ErrEndGroup name)
       else if tag_field wire \<le> 0 then Err (ErrIllegalTag name (tag_field wire) wire)
       else case fld m (tag_field wire) (tag_type wire) d i1 of
              Some r \<Rightarrow> r
            | None \<Rightarrow> unknown_field unk m d i)"

function fields_loop ::
  "string \<Rightarrow> 'm fields \<Rightarrow> (bytes \<Rightarrow> 'm \<Rightarrow> 'm) \<Rightarrow> 'm \<Rightarrow> bytes \<Rightarrow> nat \<Rightarrow> 'm result" where
  "fields_loop name fld unk m d i =
     (if i < length d then
        bind_result (one_field name fld unk m d i) (\<lambda>(m', i').
          if i < i' then fields_loop name fld unk m' d i' else Loop)
      else if length d < i then Err ErrUnexpectedEOF
      else Ok m)"
  by pat_completeness auto
termination
  by (relation "measure (\<lambda>(name, fld, unk, m, d, i). length d - i)") auto

declare fields_loop.simps [simp del]

text \<open>A switch is well behaved when it returns and never moves the index back.\<close>

definition good_fields :: "'m fields \<Rightarrow> bool" where
  "good_fields fld \<longleftrightarrow> (\<forall>m f w d i r. fld m f w d i = Some r \<longrightarrow>
     returns r \<and> (\<forall>m' j. r = Ok (m', j) \<longrightarrow> i \<le> j))"

lemma unknown_field_good:
  "returns (unknown_field unk m d i) \<and> (unknown_field unk m d i = Ok (m', j) \<longrightarrow> i < j)"
proof
  show "returns (unknown_field unk m d i)"
    unfolding unknown_field_def by (rule returns_bind) auto
  show "unknown_field unk m d i = Ok (m', j) \<longrightarrow> i < j"
    by (auto simp: unknown_field_def bind_result_Ok_iff split: if_splits dest: skip_pos)
qed

lemma one_field_good:
  assumes "good_fields fld"
  shows "returns (one_field name fld unk m d i)"
    and "one_field name fld unk m d i = Ok (m', j) \<Longrightarrow> i < j"
proof -
  show "returns (one_field name fld unk m d i)"
    unfolding one_field_def
  proof (rule returns_bind)
    fix x :: "64 word \<times> nat"
    assume "decodeVarint d i = Ok x"
    with assms show "returns (case x of (wire, i1) \<Rightarrow>
       if tag_type wire = 4 then Err (ErrEndGroup name)
       else if tag_field wire \<le> 0 then Err (ErrIllegalTag name (tag_field wire) wire)
       else case fld m (tag_field wire) (tag_type wire) d i1 of
              Some r \<Rightarrow> r | None \<Rightarrow> unknown_field unk m d i)"
      by (cases x) (auto simp: good_fields_def unknown_field_good split: option.splits)
  qed simp
  assume "one_field name fld unk m d i = Ok (m', j)"
  then show "i < j"
    using assms
    by (auto simp: one_field_def bind_result_Ok_iff good_fields_def unknown_field_good
        split: if_splits option.splits dest!: decodeVarint_progress)
       (metis order.strict_trans2)
qed

lemma fields_loop_returns: "good_fields fld \<Longrightarrow> returns (fields_loop name fld unk m d i)"
proof (induction name fld unk m d i rule: fields_loop.induct)
  case (1 name fld unk m d i)
  show ?case
  proof (cases "i < length d")
    case True
    have "returns (bind_result (one_field name fld unk m d i) (\<lambda>(m', i').
            if i < i' then fields_loop name fld unk m' d i' else Loop))"
      using one_field_good [OF "1.prems"] "1.IH" [OF True] "1.prems"
      by (intro returns_bind) (auto split: prod.splits)
    with True show ?thesis by (subst fields_loop.simps) simp
  next
    case False
    then show ?thesis by (subst fields_loop.simps) simp
  qed
qed

subsection \<open>Consuming encoded fields\<close>

definition consumes :: "('m \<Rightarrow> bytes \<Rightarrow> nat \<Rightarrow> 'm result) \<Rightarrow> ('m \<Rightarrow> 'm) \<Rightarrow> bytes \<Rightarrow> bool" where
  "consumes F u bs \<longleftrightarrow> (\<forall>m pre post. length (pre @ bs @ post) < 2 ^ 63 \<longrightarrow>
     F m (pre @ bs @ post) (length pre) = F (u m) (pre @ bs @ post) (length (pre @ bs)))"

lemma consumes_Nil [intro, simp]: "consumes F (\<lambda>m. m) []"
  by (simp add: consumes_def)

lemma consumes_append [intro]:
  assumes "consumes F u a" and "consumes F v b"
  shows "consumes F (\<lambda>m. v (u m)) (a @ b)"
  unfolding consumes_def
proof (intro allI impI)
  fix m and pre post :: bytes
  assume len: "length (pre @ (a @ b) @ post) < 2 ^ 63"
  have "F m (pre @ a @ (b @ post)) (length pre) = F (u m) (pre @ a @ (b @ post)) (length (pre @ a))"
    using assms(1) len by (auto simp: consumes_def)
  also have "\<dots> = F (u m) ((pre @ a) @ b @ post) (length (pre @ a))" by simp
  also have "\<dots> = F (v (u m)) ((pre @ a) @ b @ post) (length ((pre @ a) @ b))"
    using assms(2) len unfolding consumes_def by (metis append.assoc)
  finally show "F m (pre @ (a @ b) @ post) (length pre) =
      F (v (u m)) (pre @ (a @ b) @ post) (length (pre @ a @ b))" by simp
qed

lemma consumes_all:
  "consumes (fields_loop name fld unk) u bs \<Longrightarrow> length bs < 2 ^ 63 \<Longrightarrow>
   fields_loop name fld unk m bs 0 = Ok (u m)"
proof -
  assume c: "consumes (fields_loop name fld unk) u bs" and len: "length bs < 2 ^ 63"
  have "fields_loop name fld unk m ([] @ bs @ []) (length ([] :: bytes)) =
      fields_loop name fld unk (u m) ([] @ bs @ []) (length ([] @ bs))"
    using len by (intro c [unfolded consumes_def, rule_format]) simp
  then show ?thesis by (simp add: fields_loop.simps [of name fld unk "u m" bs "length bs"])
qed

text \<open>
  One field: its tag byte, and a payload that the switch reads wherever it stands.
\<close>

lemma fields_loop_field:
  assumes tag: "tag < (128 :: 64 word)" "tag_type tag \<noteq> 4" "0 < tag_field tag"
    and fld: "fld m (tag_field tag) (tag_type tag) (pre @ ucast tag # body @ post) (Suc (length pre)) =
        Some (Ok (m', length (pre @ ucast tag # body)))"
  shows "fields_loop name fld unk m (pre @ ucast tag # body @ post) (length pre) =
      fields_loop name fld unk m' (pre @ ucast tag # body @ post) (length (pre @ ucast tag # body))"
proof -
  let ?d = "pre @ ucast tag # body @ post"
  have "varint tag = [ucast tag]" using tag(1) by (subst varint.simps) simp
  then have "decodeVarint ?d (length pre) = Ok (tag, Suc (length pre))"
    using decodeVarint_varint [where 'a = 64, of pre tag "body @ post"] by simp
  with fld tag have "one_field name fld unk m ?d (length pre) =
      Ok (m', length (pre @ ucast tag # body))"
    by (simp add: one_field_def)
  then show ?thesis
    by (subst fields_loop.simps) simp
qed

lemma consumes_field:
  assumes tag: "tag < (128 :: 64 word)" "tag_type tag \<noteq> 4" "0 < tag_field tag"
    and fld: "\<And>m pre post. length (pre @ body @ post) < 2 ^ 63 \<Longrightarrow>
      fld m (tag_field tag) (tag_type tag) (pre @ body @ post) (length pre) =
        Some (Ok (u m, length (pre @ body)))"
  shows "consumes (fields_loop name fld unk) u (ucast tag # body)"
  unfolding consumes_def
proof (intro allI impI)
  fix m and pre post :: bytes
  assume "length (pre @ (ucast tag # body) @ post) < 2 ^ 63"
  then have "fld m (tag_field tag) (tag_type tag) (pre @ ucast tag # body @ post) (Suc (length pre)) =
      Some (Ok (u m, length (pre @ ucast tag # body)))"
    using fld [of "pre @ [ucast tag]" post m] by simp
  from fields_loop_field [of tag fld m pre body post "u m" name unk, OF tag this]
  show "fields_loop name fld unk m (pre @ (ucast tag # body) @ post) (length pre) =
      fields_loop name fld unk (u m) (pre @ (ucast tag # body) @ post) (length (pre @ ucast tag # body))"
    by simp
qed

text \<open>A message whose encoding is one length-delimited field.\<close>

lemma fields_loop_single:
  assumes "tag < (128 :: 64 word)" "tag_type tag = 2" "0 < tag_field tag" "t = ucast tag"
    and "\<And>d i. fld m (tag_field tag) 2 d i =
      Some (bind_result (read_slice d i) (\<lambda>(y, j). bind_result (upd y m) (\<lambda>m'. Ok (m', j))))"
    and "upd x m = Ok m'" and "length (bytes_always t x) < 2 ^ 63"
  shows "fields_loop nm fld unk m (bytes_always t x) 0 = Ok m'"
proof -
  let ?body = "varint (word_of_nat (length x)) @ x"
  have "read_slice (ucast tag # ?body) (Suc 0) = Ok (x, length (ucast tag # ?body))"
    using read_slice_at [of "[ucast tag]" x "[]"] assms(7) by (simp add: length_varint size_bytes_always_def)
  then have "fld m (tag_field tag) (tag_type tag) ([] @ ucast tag # ?body @ []) (Suc (length ([] :: bytes))) =
      Some (Ok (m', length ([] @ ucast tag # ?body)))"
    using assms(2,5,6) by simp
  from fields_loop_field [of tag fld m "[]" ?body "[]" m' nm unk, OF assms(1) _ assms(3) this] assms(2,4)
  have "fields_loop nm fld unk m (bytes_always t x) 0 =
      fields_loop nm fld unk m' (bytes_always t x) (length (bytes_always t x))"
    by (simp add: bytes_always_def)
  then show ?thesis by (subst (asm) (2) fields_loop.simps) simp
qed

end
