(* ===== verification/Messages.thy ===== *)
theory Messages
  imports Wire_Decode
begin

text \<open>
  The messages of \<^verbatim>\<open>proto/cp.proto\<close> that hold scalar fields only, as \<^verbatim>\<open>proto/cp.pb.go\<close> declares them and
  \<^verbatim>\<open>proto/cp_vtproto.pb.go\<close> encodes them. For each message \<open>M\<close>: its record, \<open>M_SizeVT\<close>,
  \<open>M_MarshalToSizedBufferVT\<close> (fields last to first, as the code writes them), \<open>M_MarshalVT\<close>, the switch
  \<open>M_field\<close> of \<open>M_UnmarshalVT\<close>, and a reference encoding \<open>M_bytes\<close>. The lemmas show that the computed size
  is exact (so the backward writer never indexes out of range), that the marshaller writes the
  reference encoding, and that the unmarshaller reads it back.

  Signed 64-bit fields are \<open>64 word\<close> (the codec converts them with \<^verbatim>\<open>uint64(m.F)\<close>), the error type
  is the 32-bit enum.
\<close>

subsection \<open>The shapes of a field in a switch\<close>

definition field_uint ::
  "string \<Rightarrow> ('a::len word \<Rightarrow> 'm \<Rightarrow> 'm) \<Rightarrow> 'm \<Rightarrow> 64 word \<Rightarrow> bytes \<Rightarrow> nat \<Rightarrow> ('m \<times> nat) result" where
  "field_uint name upd m wireType d i =
     (if wireType \<noteq> 0 then Err (ErrWireType (sint wireType) name)
      else bind_result (decodeVarint d i) (\<lambda>(v, j). Ok (upd v m, j)))"

definition field_bool ::
  "string \<Rightarrow> (bool \<Rightarrow> 'm \<Rightarrow> 'm) \<Rightarrow> 'm \<Rightarrow> 64 word \<Rightarrow> bytes \<Rightarrow> nat \<Rightarrow> ('m \<times> nat) result" where
  "field_bool name upd m wireType d i =
     (if wireType \<noteq> 0 then Err (ErrWireType (sint wireType) name)
      else bind_result (decodeVarint d i) (\<lambda>(v :: 64 word, j). Ok (upd (v \<noteq> 0) m, j)))"

definition field_bytes ::
  "string \<Rightarrow> (bytes \<Rightarrow> 'm \<Rightarrow> 'm) \<Rightarrow> 'm \<Rightarrow> 64 word \<Rightarrow> bytes \<Rightarrow> nat \<Rightarrow> ('m \<times> nat) result" where
  "field_bytes name upd m wireType d i =
     (if wireType \<noteq> 2 then Err (ErrWireType (sint wireType) name)
      else bind_result (read_slice d i) (\<lambda>(x, j). Ok (upd x m, j)))"

lemma field_returns [simp]:
  "returns (field_uint name su m w d i)"
  "returns (field_bool name sb m w d i)"
  "returns (field_bytes name sx m w d i)"
  by (auto simp: field_uint_def field_bool_def field_bytes_def intro!: returns_bind)

lemma field_mono:
  "field_uint name su m w d i = Ok (m', j) \<Longrightarrow> i \<le> j"
  "field_bool name sb m w d i = Ok (m', j) \<Longrightarrow> i \<le> j"
  "field_bytes name sx m w d i = Ok (m', j) \<Longrightarrow> i \<le> j"
  by (auto simp: field_uint_def field_bool_def field_bytes_def bind_result_Ok_iff
      split: if_splits dest!: decodeVarint_progress read_slice_progress)

lemma emits_allI:
  "list_all2 emits fs bss \<Longrightarrow> bs = concat (rev bss) \<Longrightarrow> emits (emit_all fs) bs"
  by (simp add: emits_all)

text \<open>
  What a switch with such a case does to the encoded field, at whatever position. The premises on the
  tag are closed and evaluate; the last one unfolds the switch.
\<close>

lemma consumes_uint_field:
  assumes "tag < (128 :: 64 word)" "tag_type tag = 0" "0 < tag_field tag" "t = ucast tag"
    and "\<And>m d i. fld m (tag_field tag) 0 d i = Some (field_uint name upd m 0 d i)"
    and "u = (\<lambda>m. if v = 0 then m else upd (ucast v) m)"
  shows "consumes (fields_loop nm fld unk) u (uint_field t v)"
proof (cases "v = 0")
  case True
  with assms(6) show ?thesis by (simp add: uint_field_def)
next
  case False
  have "consumes (fields_loop nm fld unk) (upd (ucast v)) (ucast tag # varint v)"
    using assms(1-3)
    by (intro consumes_field) (simp_all add: assms(5) field_uint_def decodeVarint_varint)
  with False assms(4,6) show ?thesis by (simp add: uint_field_def)
qed

lemma consumes_bool_field:
  assumes "tag < (128 :: 64 word)" "tag_type tag = 0" "0 < tag_field tag" "t = ucast tag"
    and "\<And>m d i. fld m (tag_field tag) 0 d i = Some (field_bool name upd m 0 d i)"
    and "u = (\<lambda>m. if b then upd True m else m)"
  shows "consumes (fields_loop nm fld unk) u (bool_field t b)"
proof (cases b)
  case False
  with assms(6) show ?thesis by (simp add: bool_field_def)
next
  case True
  have one: "varint 1 = [1]" by (subst varint.simps) simp
  have "consumes (fields_loop nm fld unk) (upd True) (ucast tag # varint 1)"
    using assms(1-3) decodeVarint_varint [where 'a = 64 and v = 1]
    by (intro consumes_field) (simp_all add: assms(5) field_bool_def)
  with True assms(4,6) show ?thesis by (simp add: bool_field_def one)
qed

lemma consumes_bytes_always:
  assumes "tag < (128 :: 64 word)" "tag_type tag = 2" "0 < tag_field tag" "t = ucast tag"
    and "\<And>m d i. fld m (tag_field tag) 2 d i =
      Some (bind_result (read_slice d i) (\<lambda>(y, j). bind_result (upd y m) (\<lambda>m'. Ok (m', j))))"
    and "\<And>m. upd x m = Ok (u m)"
  shows "consumes (fields_loop nm fld unk) u (bytes_always t x)"
proof -
  have "consumes (fields_loop nm fld unk) u
      (ucast tag # varint (word_of_nat (length x)) @ x)"
    using assms(1-3) read_slice_at [where x = x]
    by (intro consumes_field) (simp_all add: assms(5,6))
  with assms(4) show ?thesis by (simp add: bytes_always_def)
qed

lemma consumes_bytes_field:
  assumes "tag < (128 :: 64 word)" "tag_type tag = 2" "0 < tag_field tag" "t = ucast tag"
    and "\<And>m d i. fld m (tag_field tag) 2 d i = Some (field_bytes name upd m 2 d i)"
    and "u = (\<lambda>m. if x = [] then m else upd x m)"
  shows "consumes (fields_loop nm fld unk) u (bytes_field t x)"
proof (cases "x = []")
  case True
  with assms(6) show ?thesis by (simp add: bytes_field_def)
next
  case False
  have "consumes (fields_loop nm fld unk) (upd x) (bytes_always t x)"
    using assms(1-5)
    by (intro consumes_bytes_always [of tag t fld "\<lambda>x m. Ok (upd x m)"])
       (simp_all add: field_bytes_def)
  with False assms(6) show ?thesis by (simp add: bytes_field_def)
qed

text \<open>The 32-bit enum is sign-extended when written and cut to 32 bits when read.\<close>

lemma ucast_scast_32 [simp]: "(ucast (scast (x :: 32 word) :: 64 word) :: 32 word) = x"
proof (rule bit_word_eqI)
  fix n
  assume "n < LENGTH(32)"
  then show "bit (ucast (scast x :: 64 word) :: 32 word) n = bit x n"
    by (cases "n = 31") (auto simp: bit_ucast_iff bit_signed_iff min_def)
qed

lemma scast_32_eq_0 [simp]: "(scast (x :: 32 word) :: 64 word) = 0 \<longleftrightarrow> x = 0"
  by (metis signed_0 ucast_0 ucast_scast_32)

subsection \<open>ServerStatus\<close>

record ServerStatus =
  ss_DbSize :: "64 word"
  ss_DbPath :: bytes
  ss_GrpcMaxReceiveBytes :: "64 word"
  ss_GcInterval :: "64 word"
  ss_DevMode :: bool
  ss_GrpcMTls :: bool
  ss_unknownFields :: bytes

definition ServerStatus_empty :: ServerStatus where
  "ServerStatus_empty = \<lparr>ss_DbSize = 0,
     ss_DbPath = [],
     ss_GrpcMaxReceiveBytes = 0,
     ss_GcInterval = 0,
     ss_DevMode = False,
     ss_GrpcMTls = False,
     ss_unknownFields = []\<rparr>"

definition ServerStatus_SizeVT :: "ServerStatus \<Rightarrow> nat" where
  "ServerStatus_SizeVT m =
     size_uint_field (ss_DbSize m) +
     size_bytes_field (ss_DbPath m) +
     size_uint_field (ss_GrpcMaxReceiveBytes m) +
     size_uint_field (ss_GcInterval m) +
     size_bool_field (ss_DevMode m) +
     size_bool_field (ss_GrpcMTls m) +
     length (ss_unknownFields m)"

definition ServerStatus_MarshalToSizedBufferVT :: "ServerStatus \<Rightarrow> enc" where
  "ServerStatus_MarshalToSizedBufferVT m = emit_all
     [put_bytes (ss_unknownFields m),
      emit_bool_field 0x30 (ss_GrpcMTls m),
      emit_bool_field 0x28 (ss_DevMode m),
      emit_uint_field 0x20 (ss_GcInterval m),
      emit_uint_field 0x18 (ss_GrpcMaxReceiveBytes m),
      emit_bytes_field 0x12 (ss_DbPath m),
      emit_uint_field 0x8 (ss_DbSize m)]"

definition ServerStatus_MarshalVT :: "ServerStatus \<Rightarrow> bytes result" where
  "ServerStatus_MarshalVT m = MarshalVT (ServerStatus_SizeVT m) (ServerStatus_MarshalToSizedBufferVT m)"

definition ServerStatus_field :: "ServerStatus fields" where
  "ServerStatus_field m f w d i =
     (if f = 1 then Some (field_uint ''DbSize''
        (\<lambda>v m. m\<lparr>ss_DbSize := v\<rparr>) m w d i)
      else if f = 2 then Some (field_bytes ''DbPath''
        (\<lambda>v m. m\<lparr>ss_DbPath := v\<rparr>) m w d i)
      else if f = 3 then Some (field_uint ''GrpcMaxReceiveBytes''
        (\<lambda>v m. m\<lparr>ss_GrpcMaxReceiveBytes := v\<rparr>) m w d i)
      else if f = 4 then Some (field_uint ''GcInterval''
        (\<lambda>v m. m\<lparr>ss_GcInterval := v\<rparr>) m w d i)
      else if f = 5 then Some (field_bool ''DevMode''
        (\<lambda>v m. m\<lparr>ss_DevMode := v\<rparr>) m w d i)
      else if f = 6 then Some (field_bool ''GrpcMTls''
        (\<lambda>v m. m\<lparr>ss_GrpcMTls := v\<rparr>) m w d i)
      else None)"

definition ServerStatus_unknown :: "bytes \<Rightarrow> ServerStatus \<Rightarrow> ServerStatus" where
  "ServerStatus_unknown x m = m\<lparr>ss_unknownFields := ss_unknownFields m @ x\<rparr>"

definition ServerStatus_UnmarshalVT :: "ServerStatus \<Rightarrow> bytes \<Rightarrow> ServerStatus result" where
  "ServerStatus_UnmarshalVT m d =
     fields_loop ''ServerStatus'' ServerStatus_field ServerStatus_unknown m d 0"

definition ServerStatus_bytes :: "ServerStatus \<Rightarrow> bytes" where
  "ServerStatus_bytes m =
     uint_field 0x8 (ss_DbSize m) @
     bytes_field 0x12 (ss_DbPath m) @
     uint_field 0x18 (ss_GrpcMaxReceiveBytes m) @
     uint_field 0x20 (ss_GcInterval m) @
     bool_field 0x28 (ss_DevMode m) @
     bool_field 0x30 (ss_GrpcMTls m) @
     ss_unknownFields m"

lemma emits_ServerStatus [intro]: "emits (ServerStatus_MarshalToSizedBufferVT m) (ServerStatus_bytes m)"
  unfolding ServerStatus_MarshalToSizedBufferVT_def ServerStatus_bytes_def
  by (rule emits_allI, (rule list.rel_intros emits_fields)+, simp)

lemma length_ServerStatus_bytes: "length (ServerStatus_bytes m) = ServerStatus_SizeVT m"
  by (simp add: ServerStatus_bytes_def ServerStatus_SizeVT_def)

lemma ServerStatus_MarshalVT_eq: "ServerStatus_MarshalVT m = Ok (ServerStatus_bytes m)"
  unfolding ServerStatus_MarshalVT_def by (rule MarshalVT_emits) (auto simp: length_ServerStatus_bytes)

lemma good_ServerStatus_field [simp]: "good_fields ServerStatus_field"
  by (auto simp: good_fields_def ServerStatus_field_def split: if_splits dest: field_mono)

lemma ServerStatus_UnmarshalVT_bytes:
  assumes "ss_unknownFields m = []" and "length (ServerStatus_bytes m) < 2 ^ 63"
  shows "ServerStatus_UnmarshalVT ServerStatus_empty (ServerStatus_bytes m) = Ok m"
proof -
  let ?F = "fields_loop ''ServerStatus'' ServerStatus_field ServerStatus_unknown"
  have c1: "consumes ?F (\<lambda>x. if ss_DbSize m = 0 then x else x\<lparr>ss_DbSize := ss_DbSize m\<rparr>) (uint_field 0x8 (ss_DbSize m))"
    by (rule consumes_uint_field [where tag = "0x8" and upd = "\<lambda>v m. m\<lparr>ss_DbSize := v\<rparr>"])
       (simp_all add: tag_field_def tag_type_def ServerStatus_field_def cong: if_cong)
  have c2: "consumes ?F (\<lambda>x. if ss_DbPath m = [] then x else x\<lparr>ss_DbPath := ss_DbPath m\<rparr>) (bytes_field 0x12 (ss_DbPath m))"
    by (rule consumes_bytes_field [where tag = "0x12" and upd = "\<lambda>v m. m\<lparr>ss_DbPath := v\<rparr>"])
       (simp_all add: tag_field_def tag_type_def ServerStatus_field_def cong: if_cong)
  have c3: "consumes ?F (\<lambda>x. if ss_GrpcMaxReceiveBytes m = 0 then x else x\<lparr>ss_GrpcMaxReceiveBytes := ss_GrpcMaxReceiveBytes m\<rparr>) (uint_field 0x18 (ss_GrpcMaxReceiveBytes m))"
    by (rule consumes_uint_field [where tag = "0x18" and upd = "\<lambda>v m. m\<lparr>ss_GrpcMaxReceiveBytes := v\<rparr>"])
       (simp_all add: tag_field_def tag_type_def ServerStatus_field_def cong: if_cong)
  have c4: "consumes ?F (\<lambda>x. if ss_GcInterval m = 0 then x else x\<lparr>ss_GcInterval := ss_GcInterval m\<rparr>) (uint_field 0x20 (ss_GcInterval m))"
    by (rule consumes_uint_field [where tag = "0x20" and upd = "\<lambda>v m. m\<lparr>ss_GcInterval := v\<rparr>"])
       (simp_all add: tag_field_def tag_type_def ServerStatus_field_def cong: if_cong)
  have c5: "consumes ?F (\<lambda>x. if ss_DevMode m then x\<lparr>ss_DevMode := True\<rparr> else x) (bool_field 0x28 (ss_DevMode m))"
    by (rule consumes_bool_field [where tag = "0x28" and upd = "\<lambda>v m. m\<lparr>ss_DevMode := v\<rparr>"])
       (simp_all add: tag_field_def tag_type_def ServerStatus_field_def cong: if_cong)
  have c6: "consumes ?F (\<lambda>x. if ss_GrpcMTls m then x\<lparr>ss_GrpcMTls := True\<rparr> else x) (bool_field 0x30 (ss_GrpcMTls m))"
    by (rule consumes_bool_field [where tag = "0x30" and upd = "\<lambda>v m. m\<lparr>ss_GrpcMTls := v\<rparr>"])
       (simp_all add: tag_field_def tag_type_def ServerStatus_field_def cong: if_cong)
  note c = consumes_append [OF c1 consumes_append [OF c2 consumes_append [OF c3 consumes_append [OF c4 consumes_append [OF c5 c6]]]]]
  from consumes_all [OF c, of ServerStatus_empty] assms show ?thesis
    by (cases m) (simp add: ServerStatus_UnmarshalVT_def ServerStatus_bytes_def ServerStatus_empty_def)
qed

subsection \<open>Clipboard\<close>

record Clipboard =
  cb_Sequence :: "64 word"
  cb_ExpireAt :: bytes
  cb_Compressed :: bool
  cb_MasterKeyNonce :: bytes
  cb_KeyNonce :: bytes
  cb_Iv :: bytes
  cb_Checksum :: bytes
  cb_Size :: "64 word"
  cb_unknownFields :: bytes

definition Clipboard_empty :: Clipboard where
  "Clipboard_empty = \<lparr>cb_Sequence = 0,
     cb_ExpireAt = [],
     cb_Compressed = False,
     cb_MasterKeyNonce = [],
     cb_KeyNonce = [],
     cb_Iv = [],
     cb_Checksum = [],
     cb_Size = 0,
     cb_unknownFields = []\<rparr>"

definition Clipboard_SizeVT :: "Clipboard \<Rightarrow> nat" where
  "Clipboard_SizeVT m =
     size_uint_field (cb_Sequence m) +
     size_bytes_field (cb_ExpireAt m) +
     size_bool_field (cb_Compressed m) +
     size_bytes_field (cb_MasterKeyNonce m) +
     size_bytes_field (cb_KeyNonce m) +
     size_bytes_field (cb_Iv m) +
     size_bytes_field (cb_Checksum m) +
     size_uint_field (cb_Size m) +
     length (cb_unknownFields m)"

definition Clipboard_MarshalToSizedBufferVT :: "Clipboard \<Rightarrow> enc" where
  "Clipboard_MarshalToSizedBufferVT m = emit_all
     [put_bytes (cb_unknownFields m),
      emit_uint_field 0x40 (cb_Size m),
      emit_bytes_field 0x3A (cb_Checksum m),
      emit_bytes_field 0x32 (cb_Iv m),
      emit_bytes_field 0x2A (cb_KeyNonce m),
      emit_bytes_field 0x22 (cb_MasterKeyNonce m),
      emit_bool_field 0x18 (cb_Compressed m),
      emit_bytes_field 0x12 (cb_ExpireAt m),
      emit_uint_field 0x8 (cb_Sequence m)]"

definition Clipboard_MarshalVT :: "Clipboard \<Rightarrow> bytes result" where
  "Clipboard_MarshalVT m = MarshalVT (Clipboard_SizeVT m) (Clipboard_MarshalToSizedBufferVT m)"

definition Clipboard_field :: "Clipboard fields" where
  "Clipboard_field m f w d i =
     (if f = 1 then Some (field_uint ''Sequence''
        (\<lambda>v m. m\<lparr>cb_Sequence := v\<rparr>) m w d i)
      else if f = 2 then Some (field_bytes ''ExpireAt''
        (\<lambda>v m. m\<lparr>cb_ExpireAt := v\<rparr>) m w d i)
      else if f = 3 then Some (field_bool ''Compressed''
        (\<lambda>v m. m\<lparr>cb_Compressed := v\<rparr>) m w d i)
      else if f = 4 then Some (field_bytes ''MasterKeyNonce''
        (\<lambda>v m. m\<lparr>cb_MasterKeyNonce := v\<rparr>) m w d i)
      else if f = 5 then Some (field_bytes ''KeyNonce''
        (\<lambda>v m. m\<lparr>cb_KeyNonce := v\<rparr>) m w d i)
      else if f = 6 then Some (field_bytes ''Iv''
        (\<lambda>v m. m\<lparr>cb_Iv := v\<rparr>) m w d i)
      else if f = 7 then Some (field_bytes ''Checksum''
        (\<lambda>v m. m\<lparr>cb_Checksum := v\<rparr>) m w d i)
      else if f = 8 then Some (field_uint ''Size''
        (\<lambda>v m. m\<lparr>cb_Size := v\<rparr>) m w d i)
      else None)"

definition Clipboard_unknown :: "bytes \<Rightarrow> Clipboard \<Rightarrow> Clipboard" where
  "Clipboard_unknown x m = m\<lparr>cb_unknownFields := cb_unknownFields m @ x\<rparr>"

definition Clipboard_UnmarshalVT :: "Clipboard \<Rightarrow> bytes \<Rightarrow> Clipboard result" where
  "Clipboard_UnmarshalVT m d =
     fields_loop ''Clipboard'' Clipboard_field Clipboard_unknown m d 0"

definition Clipboard_bytes :: "Clipboard \<Rightarrow> bytes" where
  "Clipboard_bytes m =
     uint_field 0x8 (cb_Sequence m) @
     bytes_field 0x12 (cb_ExpireAt m) @
     bool_field 0x18 (cb_Compressed m) @
     bytes_field 0x22 (cb_MasterKeyNonce m) @
     bytes_field 0x2A (cb_KeyNonce m) @
     bytes_field 0x32 (cb_Iv m) @
     bytes_field 0x3A (cb_Checksum m) @
     uint_field 0x40 (cb_Size m) @
     cb_unknownFields m"

lemma emits_Clipboard [intro]: "emits (Clipboard_MarshalToSizedBufferVT m) (Clipboard_bytes m)"
  unfolding Clipboard_MarshalToSizedBufferVT_def Clipboard_bytes_def
  by (rule emits_allI, (rule list.rel_intros emits_fields)+, simp)

lemma length_Clipboard_bytes: "length (Clipboard_bytes m) = Clipboard_SizeVT m"
  by (simp add: Clipboard_bytes_def Clipboard_SizeVT_def)

lemma Clipboard_MarshalVT_eq: "Clipboard_MarshalVT m = Ok (Clipboard_bytes m)"
  unfolding Clipboard_MarshalVT_def by (rule MarshalVT_emits) (auto simp: length_Clipboard_bytes)

lemma good_Clipboard_field [simp]: "good_fields Clipboard_field"
  by (auto simp: good_fields_def Clipboard_field_def split: if_splits dest: field_mono)

lemma Clipboard_UnmarshalVT_bytes:
  assumes "cb_unknownFields m = []" and "length (Clipboard_bytes m) < 2 ^ 63"
  shows "Clipboard_UnmarshalVT Clipboard_empty (Clipboard_bytes m) = Ok m"
proof -
  let ?F = "fields_loop ''Clipboard'' Clipboard_field Clipboard_unknown"
  have c1: "consumes ?F (\<lambda>x. if cb_Sequence m = 0 then x else x\<lparr>cb_Sequence := cb_Sequence m\<rparr>) (uint_field 0x8 (cb_Sequence m))"
    by (rule consumes_uint_field [where tag = "0x8" and upd = "\<lambda>v m. m\<lparr>cb_Sequence := v\<rparr>"])
       (simp_all add: tag_field_def tag_type_def Clipboard_field_def cong: if_cong)
  have c2: "consumes ?F (\<lambda>x. if cb_ExpireAt m = [] then x else x\<lparr>cb_ExpireAt := cb_ExpireAt m\<rparr>) (bytes_field 0x12 (cb_ExpireAt m))"
    by (rule consumes_bytes_field [where tag = "0x12" and upd = "\<lambda>v m. m\<lparr>cb_ExpireAt := v\<rparr>"])
       (simp_all add: tag_field_def tag_type_def Clipboard_field_def cong: if_cong)
  have c3: "consumes ?F (\<lambda>x. if cb_Compressed m then x\<lparr>cb_Compressed := True\<rparr> else x) (bool_field 0x18 (cb_Compressed m))"
    by (rule consumes_bool_field [where tag = "0x18" and upd = "\<lambda>v m. m\<lparr>cb_Compressed := v\<rparr>"])
       (simp_all add: tag_field_def tag_type_def Clipboard_field_def cong: if_cong)
  have c4: "consumes ?F (\<lambda>x. if cb_MasterKeyNonce m = [] then x else x\<lparr>cb_MasterKeyNonce := cb_MasterKeyNonce m\<rparr>) (bytes_field 0x22 (cb_MasterKeyNonce m))"
    by (rule consumes_bytes_field [where tag = "0x22" and upd = "\<lambda>v m. m\<lparr>cb_MasterKeyNonce := v\<rparr>"])
       (simp_all add: tag_field_def tag_type_def Clipboard_field_def cong: if_cong)
  have c5: "consumes ?F (\<lambda>x. if cb_KeyNonce m = [] then x else x\<lparr>cb_KeyNonce := cb_KeyNonce m\<rparr>) (bytes_field 0x2A (cb_KeyNonce m))"
    by (rule consumes_bytes_field [where tag = "0x2A" and upd = "\<lambda>v m. m\<lparr>cb_KeyNonce := v\<rparr>"])
       (simp_all add: tag_field_def tag_type_def Clipboard_field_def cong: if_cong)
  have c6: "consumes ?F (\<lambda>x. if cb_Iv m = [] then x else x\<lparr>cb_Iv := cb_Iv m\<rparr>) (bytes_field 0x32 (cb_Iv m))"
    by (rule consumes_bytes_field [where tag = "0x32" and upd = "\<lambda>v m. m\<lparr>cb_Iv := v\<rparr>"])
       (simp_all add: tag_field_def tag_type_def Clipboard_field_def cong: if_cong)
  have c7: "consumes ?F (\<lambda>x. if cb_Checksum m = [] then x else x\<lparr>cb_Checksum := cb_Checksum m\<rparr>) (bytes_field 0x3A (cb_Checksum m))"
    by (rule consumes_bytes_field [where tag = "0x3A" and upd = "\<lambda>v m. m\<lparr>cb_Checksum := v\<rparr>"])
       (simp_all add: tag_field_def tag_type_def Clipboard_field_def cong: if_cong)
  have c8: "consumes ?F (\<lambda>x. if cb_Size m = 0 then x else x\<lparr>cb_Size := cb_Size m\<rparr>) (uint_field 0x40 (cb_Size m))"
    by (rule consumes_uint_field [where tag = "0x40" and upd = "\<lambda>v m. m\<lparr>cb_Size := v\<rparr>"])
       (simp_all add: tag_field_def tag_type_def Clipboard_field_def cong: if_cong)
  note c = consumes_append [OF c1 consumes_append [OF c2 consumes_append [OF c3 consumes_append [OF c4 consumes_append [OF c5 consumes_append [OF c6 consumes_append [OF c7 c8]]]]]]]
  from consumes_all [OF c, of Clipboard_empty] assms show ?thesis
    by (cases m) (simp add: Clipboard_UnmarshalVT_def Clipboard_bytes_def Clipboard_empty_def)
qed

subsection \<open>PasteOption\<close>

record PasteOption =
  po_TransferRate :: "64 word"
  po_unknownFields :: bytes

definition PasteOption_empty :: PasteOption where
  "PasteOption_empty = \<lparr>po_TransferRate = 0,
     po_unknownFields = []\<rparr>"

definition PasteOption_SizeVT :: "PasteOption \<Rightarrow> nat" where
  "PasteOption_SizeVT m =
     size_uint_field (po_TransferRate m) +
     length (po_unknownFields m)"

definition PasteOption_MarshalToSizedBufferVT :: "PasteOption \<Rightarrow> enc" where
  "PasteOption_MarshalToSizedBufferVT m = emit_all
     [put_bytes (po_unknownFields m),
      emit_uint_field 0x8 (po_TransferRate m)]"

definition PasteOption_MarshalVT :: "PasteOption \<Rightarrow> bytes result" where
  "PasteOption_MarshalVT m = MarshalVT (PasteOption_SizeVT m) (PasteOption_MarshalToSizedBufferVT m)"

definition PasteOption_field :: "PasteOption fields" where
  "PasteOption_field m f w d i =
     (if f = 1 then Some (field_uint ''TransferRate''
        (\<lambda>v m. m\<lparr>po_TransferRate := v\<rparr>) m w d i)
      else None)"

definition PasteOption_unknown :: "bytes \<Rightarrow> PasteOption \<Rightarrow> PasteOption" where
  "PasteOption_unknown x m = m\<lparr>po_unknownFields := po_unknownFields m @ x\<rparr>"

definition PasteOption_UnmarshalVT :: "PasteOption \<Rightarrow> bytes \<Rightarrow> PasteOption result" where
  "PasteOption_UnmarshalVT m d =
     fields_loop ''PasteOption'' PasteOption_field PasteOption_unknown m d 0"

definition PasteOption_bytes :: "PasteOption \<Rightarrow> bytes" where
  "PasteOption_bytes m =
     uint_field 0x8 (po_TransferRate m) @
     po_unknownFields m"

lemma emits_PasteOption [intro]: "emits (PasteOption_MarshalToSizedBufferVT m) (PasteOption_bytes m)"
  unfolding PasteOption_MarshalToSizedBufferVT_def PasteOption_bytes_def
  by (rule emits_allI, (rule list.rel_intros emits_fields)+, simp)

lemma length_PasteOption_bytes: "length (PasteOption_bytes m) = PasteOption_SizeVT m"
  by (simp add: PasteOption_bytes_def PasteOption_SizeVT_def)

lemma PasteOption_MarshalVT_eq: "PasteOption_MarshalVT m = Ok (PasteOption_bytes m)"
  unfolding PasteOption_MarshalVT_def by (rule MarshalVT_emits) (auto simp: length_PasteOption_bytes)

lemma good_PasteOption_field [simp]: "good_fields PasteOption_field"
  by (auto simp: good_fields_def PasteOption_field_def split: if_splits dest: field_mono)

lemma PasteOption_UnmarshalVT_bytes:
  assumes "po_unknownFields m = []" and "length (PasteOption_bytes m) < 2 ^ 63"
  shows "PasteOption_UnmarshalVT PasteOption_empty (PasteOption_bytes m) = Ok m"
proof -
  let ?F = "fields_loop ''PasteOption'' PasteOption_field PasteOption_unknown"
  have c1: "consumes ?F (\<lambda>x. if po_TransferRate m = 0 then x else x\<lparr>po_TransferRate := po_TransferRate m\<rparr>) (uint_field 0x8 (po_TransferRate m))"
    by (rule consumes_uint_field [where tag = "0x8" and upd = "\<lambda>v m. m\<lparr>po_TransferRate := v\<rparr>"])
       (simp_all add: tag_field_def tag_type_def PasteOption_field_def cong: if_cong)
  note c = c1
  from consumes_all [OF c, of PasteOption_empty] assms show ?thesis
    by (cases m) (simp add: PasteOption_UnmarshalVT_def PasteOption_bytes_def PasteOption_empty_def)
qed

subsection \<open>PastStream_Info\<close>

record PastStream_Info =
  pi_Checksum :: bool
  pi_Compressed :: bool
  pi_MasterKeyNonce :: bytes
  pi_KeyNonce :: bytes
  pi_Iv :: bytes
  pi_unknownFields :: bytes

definition PastStream_Info_empty :: PastStream_Info where
  "PastStream_Info_empty = \<lparr>pi_Checksum = False,
     pi_Compressed = False,
     pi_MasterKeyNonce = [],
     pi_KeyNonce = [],
     pi_Iv = [],
     pi_unknownFields = []\<rparr>"

definition PastStream_Info_SizeVT :: "PastStream_Info \<Rightarrow> nat" where
  "PastStream_Info_SizeVT m =
     size_bool_field (pi_Checksum m) +
     size_bool_field (pi_Compressed m) +
     size_bytes_field (pi_MasterKeyNonce m) +
     size_bytes_field (pi_KeyNonce m) +
     size_bytes_field (pi_Iv m) +
     length (pi_unknownFields m)"

definition PastStream_Info_MarshalToSizedBufferVT :: "PastStream_Info \<Rightarrow> enc" where
  "PastStream_Info_MarshalToSizedBufferVT m = emit_all
     [put_bytes (pi_unknownFields m),
      emit_bytes_field 0x2A (pi_Iv m),
      emit_bytes_field 0x22 (pi_KeyNonce m),
      emit_bytes_field 0x1A (pi_MasterKeyNonce m),
      emit_bool_field 0x10 (pi_Compressed m),
      emit_bool_field 0x8 (pi_Checksum m)]"

definition PastStream_Info_MarshalVT :: "PastStream_Info \<Rightarrow> bytes result" where
  "PastStream_Info_MarshalVT m = MarshalVT (PastStream_Info_SizeVT m) (PastStream_Info_MarshalToSizedBufferVT m)"

definition PastStream_Info_field :: "PastStream_Info fields" where
  "PastStream_Info_field m f w d i =
     (if f = 1 then Some (field_bool ''Checksum''
        (\<lambda>v m. m\<lparr>pi_Checksum := v\<rparr>) m w d i)
      else if f = 2 then Some (field_bool ''Compressed''
        (\<lambda>v m. m\<lparr>pi_Compressed := v\<rparr>) m w d i)
      else if f = 3 then Some (field_bytes ''MasterKeyNonce''
        (\<lambda>v m. m\<lparr>pi_MasterKeyNonce := v\<rparr>) m w d i)
      else if f = 4 then Some (field_bytes ''KeyNonce''
        (\<lambda>v m. m\<lparr>pi_KeyNonce := v\<rparr>) m w d i)
      else if f = 5 then Some (field_bytes ''Iv''
        (\<lambda>v m. m\<lparr>pi_Iv := v\<rparr>) m w d i)
      else None)"

definition PastStream_Info_unknown :: "bytes \<Rightarrow> PastStream_Info \<Rightarrow> PastStream_Info" where
  "PastStream_Info_unknown x m = m\<lparr>pi_unknownFields := pi_unknownFields m @ x\<rparr>"

definition PastStream_Info_UnmarshalVT :: "PastStream_Info \<Rightarrow> bytes \<Rightarrow> PastStream_Info result" where
  "PastStream_Info_UnmarshalVT m d =
     fields_loop ''PastStream_Info'' PastStream_Info_field PastStream_Info_unknown m d 0"

definition PastStream_Info_bytes :: "PastStream_Info \<Rightarrow> bytes" where
  "PastStream_Info_bytes m =
     bool_field 0x8 (pi_Checksum m) @
     bool_field 0x10 (pi_Compressed m) @
     bytes_field 0x1A (pi_MasterKeyNonce m) @
     bytes_field 0x22 (pi_KeyNonce m) @
     bytes_field 0x2A (pi_Iv m) @
     pi_unknownFields m"

lemma emits_PastStream_Info [intro]: "emits (PastStream_Info_MarshalToSizedBufferVT m) (PastStream_Info_bytes m)"
  unfolding PastStream_Info_MarshalToSizedBufferVT_def PastStream_Info_bytes_def
  by (rule emits_allI, (rule list.rel_intros emits_fields)+, simp)

lemma length_PastStream_Info_bytes: "length (PastStream_Info_bytes m) = PastStream_Info_SizeVT m"
  by (simp add: PastStream_Info_bytes_def PastStream_Info_SizeVT_def)

lemma PastStream_Info_MarshalVT_eq: "PastStream_Info_MarshalVT m = Ok (PastStream_Info_bytes m)"
  unfolding PastStream_Info_MarshalVT_def by (rule MarshalVT_emits) (auto simp: length_PastStream_Info_bytes)

lemma good_PastStream_Info_field [simp]: "good_fields PastStream_Info_field"
  by (auto simp: good_fields_def PastStream_Info_field_def split: if_splits dest: field_mono)

lemma PastStream_Info_UnmarshalVT_bytes:
  assumes "pi_unknownFields m = []" and "length (PastStream_Info_bytes m) < 2 ^ 63"
  shows "PastStream_Info_UnmarshalVT PastStream_Info_empty (PastStream_Info_bytes m) = Ok m"
proof -
  let ?F = "fields_loop ''PastStream_Info'' PastStream_Info_field PastStream_Info_unknown"
  have c1: "consumes ?F (\<lambda>x. if pi_Checksum m then x\<lparr>pi_Checksum := True\<rparr> else x) (bool_field 0x8 (pi_Checksum m))"
    by (rule consumes_bool_field [where tag = "0x8" and upd = "\<lambda>v m. m\<lparr>pi_Checksum := v\<rparr>"])
       (simp_all add: tag_field_def tag_type_def PastStream_Info_field_def cong: if_cong)
  have c2: "consumes ?F (\<lambda>x. if pi_Compressed m then x\<lparr>pi_Compressed := True\<rparr> else x) (bool_field 0x10 (pi_Compressed m))"
    by (rule consumes_bool_field [where tag = "0x10" and upd = "\<lambda>v m. m\<lparr>pi_Compressed := v\<rparr>"])
       (simp_all add: tag_field_def tag_type_def PastStream_Info_field_def cong: if_cong)
  have c3: "consumes ?F (\<lambda>x. if pi_MasterKeyNonce m = [] then x else x\<lparr>pi_MasterKeyNonce := pi_MasterKeyNonce m\<rparr>) (bytes_field 0x1A (pi_MasterKeyNonce m))"
    by (rule consumes_bytes_field [where tag = "0x1A" and upd = "\<lambda>v m. m\<lparr>pi_MasterKeyNonce := v\<rparr>"])
       (simp_all add: tag_field_def tag_type_def PastStream_Info_field_def cong: if_cong)
  have c4: "consumes ?F (\<lambda>x. if pi_KeyNonce m = [] then x else x\<lparr>pi_KeyNonce := pi_KeyNonce m\<rparr>) (bytes_field 0x22 (pi_KeyNonce m))"
    by (rule consumes_bytes_field [where tag = "0x22" and upd = "\<lambda>v m. m\<lparr>pi_KeyNonce := v\<rparr>"])
       (simp_all add: tag_field_def tag_type_def PastStream_Info_field_def cong: if_cong)
  have c5: "consumes ?F (\<lambda>x. if pi_Iv m = [] then x else x\<lparr>pi_Iv := pi_Iv m\<rparr>) (bytes_field 0x2A (pi_Iv m))"
    by (rule consumes_bytes_field [where tag = "0x2A" and upd = "\<lambda>v m. m\<lparr>pi_Iv := v\<rparr>"])
       (simp_all add: tag_field_def tag_type_def PastStream_Info_field_def cong: if_cong)
  note c = consumes_append [OF c1 consumes_append [OF c2 consumes_append [OF c3 consumes_append [OF c4 c5]]]]
  from consumes_all [OF c, of PastStream_Info_empty] assms show ?thesis
    by (cases m) (simp add: PastStream_Info_UnmarshalVT_def PastStream_Info_bytes_def PastStream_Info_empty_def)
qed

subsection \<open>PastStream_Error\<close>

record PastStream_Error =
  pe_Type :: "32 word"
  pe_Message :: bytes
  pe_unknownFields :: bytes

definition PastStream_Error_empty :: PastStream_Error where
  "PastStream_Error_empty = \<lparr>pe_Type = 0,
     pe_Message = [],
     pe_unknownFields = []\<rparr>"

definition PastStream_Error_SizeVT :: "PastStream_Error \<Rightarrow> nat" where
  "PastStream_Error_SizeVT m =
     size_uint_field (scast (pe_Type m)) +
     size_bytes_field (pe_Message m) +
     length (pe_unknownFields m)"

definition PastStream_Error_MarshalToSizedBufferVT :: "PastStream_Error \<Rightarrow> enc" where
  "PastStream_Error_MarshalToSizedBufferVT m = emit_all
     [put_bytes (pe_unknownFields m),
      emit_bytes_field 0x12 (pe_Message m),
      emit_uint_field 0x8 (scast (pe_Type m))]"

definition PastStream_Error_MarshalVT :: "PastStream_Error \<Rightarrow> bytes result" where
  "PastStream_Error_MarshalVT m = MarshalVT (PastStream_Error_SizeVT m) (PastStream_Error_MarshalToSizedBufferVT m)"

definition PastStream_Error_field :: "PastStream_Error fields" where
  "PastStream_Error_field m f w d i =
     (if f = 1 then Some (field_uint ''Type''
        (\<lambda>v m. m\<lparr>pe_Type := v\<rparr>) m w d i)
      else if f = 2 then Some (field_bytes ''Message''
        (\<lambda>v m. m\<lparr>pe_Message := v\<rparr>) m w d i)
      else None)"

definition PastStream_Error_unknown :: "bytes \<Rightarrow> PastStream_Error \<Rightarrow> PastStream_Error" where
  "PastStream_Error_unknown x m = m\<lparr>pe_unknownFields := pe_unknownFields m @ x\<rparr>"

definition PastStream_Error_UnmarshalVT :: "PastStream_Error \<Rightarrow> bytes \<Rightarrow> PastStream_Error result" where
  "PastStream_Error_UnmarshalVT m d =
     fields_loop ''PastStream_Error'' PastStream_Error_field PastStream_Error_unknown m d 0"

definition PastStream_Error_bytes :: "PastStream_Error \<Rightarrow> bytes" where
  "PastStream_Error_bytes m =
     uint_field 0x8 (scast (pe_Type m)) @
     bytes_field 0x12 (pe_Message m) @
     pe_unknownFields m"

lemma emits_PastStream_Error [intro]: "emits (PastStream_Error_MarshalToSizedBufferVT m) (PastStream_Error_bytes m)"
  unfolding PastStream_Error_MarshalToSizedBufferVT_def PastStream_Error_bytes_def
  by (rule emits_allI, (rule list.rel_intros emits_fields)+, simp)

lemma length_PastStream_Error_bytes: "length (PastStream_Error_bytes m) = PastStream_Error_SizeVT m"
  by (simp add: PastStream_Error_bytes_def PastStream_Error_SizeVT_def)

lemma PastStream_Error_MarshalVT_eq: "PastStream_Error_MarshalVT m = Ok (PastStream_Error_bytes m)"
  unfolding PastStream_Error_MarshalVT_def by (rule MarshalVT_emits) (auto simp: length_PastStream_Error_bytes)

lemma good_PastStream_Error_field [simp]: "good_fields PastStream_Error_field"
  by (auto simp: good_fields_def PastStream_Error_field_def split: if_splits dest: field_mono)

lemma PastStream_Error_UnmarshalVT_bytes:
  assumes "pe_unknownFields m = []" and "length (PastStream_Error_bytes m) < 2 ^ 63"
  shows "PastStream_Error_UnmarshalVT PastStream_Error_empty (PastStream_Error_bytes m) = Ok m"
proof -
  let ?F = "fields_loop ''PastStream_Error'' PastStream_Error_field PastStream_Error_unknown"
  have c1: "consumes ?F (\<lambda>x. if pe_Type m = 0 then x else x\<lparr>pe_Type := pe_Type m\<rparr>) (uint_field 0x8 (scast (pe_Type m)))"
    by (rule consumes_uint_field [where tag = "0x8" and upd = "\<lambda>v m. m\<lparr>pe_Type := v\<rparr>"])
       (simp_all add: tag_field_def tag_type_def PastStream_Error_field_def cong: if_cong)
  have c2: "consumes ?F (\<lambda>x. if pe_Message m = [] then x else x\<lparr>pe_Message := pe_Message m\<rparr>) (bytes_field 0x12 (pe_Message m))"
    by (rule consumes_bytes_field [where tag = "0x12" and upd = "\<lambda>v m. m\<lparr>pe_Message := v\<rparr>"])
       (simp_all add: tag_field_def tag_type_def PastStream_Error_field_def cong: if_cong)
  note c = consumes_append [OF c1 c2]
  from consumes_all [OF c, of PastStream_Error_empty] assms show ?thesis
    by (cases m) (simp add: PastStream_Error_UnmarshalVT_def PastStream_Error_bytes_def PastStream_Error_empty_def)
qed

subsection \<open>CopyStream_Info\<close>

record CopyStream_Info =
  ci_Ttl :: "64 word"
  ci_Compressed :: bool
  ci_MasterKeyNonce :: bytes
  ci_KeyNonce :: bytes
  ci_Iv :: bytes
  ci_unknownFields :: bytes

definition CopyStream_Info_empty :: CopyStream_Info where
  "CopyStream_Info_empty = \<lparr>ci_Ttl = 0,
     ci_Compressed = False,
     ci_MasterKeyNonce = [],
     ci_KeyNonce = [],
     ci_Iv = [],
     ci_unknownFields = []\<rparr>"

definition CopyStream_Info_SizeVT :: "CopyStream_Info \<Rightarrow> nat" where
  "CopyStream_Info_SizeVT m =
     size_uint_field (ci_Ttl m) +
     size_bool_field (ci_Compressed m) +
     size_bytes_field (ci_MasterKeyNonce m) +
     size_bytes_field (ci_KeyNonce m) +
     size_bytes_field (ci_Iv m) +
     length (ci_unknownFields m)"

definition CopyStream_Info_MarshalToSizedBufferVT :: "CopyStream_Info \<Rightarrow> enc" where
  "CopyStream_Info_MarshalToSizedBufferVT m = emit_all
     [put_bytes (ci_unknownFields m),
      emit_bytes_field 0x2A (ci_Iv m),
      emit_bytes_field 0x22 (ci_KeyNonce m),
      emit_bytes_field 0x1A (ci_MasterKeyNonce m),
      emit_bool_field 0x10 (ci_Compressed m),
      emit_uint_field 0x8 (ci_Ttl m)]"

definition CopyStream_Info_MarshalVT :: "CopyStream_Info \<Rightarrow> bytes result" where
  "CopyStream_Info_MarshalVT m = MarshalVT (CopyStream_Info_SizeVT m) (CopyStream_Info_MarshalToSizedBufferVT m)"

definition CopyStream_Info_field :: "CopyStream_Info fields" where
  "CopyStream_Info_field m f w d i =
     (if f = 1 then Some (field_uint ''Ttl''
        (\<lambda>v m. m\<lparr>ci_Ttl := v\<rparr>) m w d i)
      else if f = 2 then Some (field_bool ''Compressed''
        (\<lambda>v m. m\<lparr>ci_Compressed := v\<rparr>) m w d i)
      else if f = 3 then Some (field_bytes ''MasterKeyNonce''
        (\<lambda>v m. m\<lparr>ci_MasterKeyNonce := v\<rparr>) m w d i)
      else if f = 4 then Some (field_bytes ''KeyNonce''
        (\<lambda>v m. m\<lparr>ci_KeyNonce := v\<rparr>) m w d i)
      else if f = 5 then Some (field_bytes ''Iv''
        (\<lambda>v m. m\<lparr>ci_Iv := v\<rparr>) m w d i)
      else None)"

definition CopyStream_Info_unknown :: "bytes \<Rightarrow> CopyStream_Info \<Rightarrow> CopyStream_Info" where
  "CopyStream_Info_unknown x m = m\<lparr>ci_unknownFields := ci_unknownFields m @ x\<rparr>"

definition CopyStream_Info_UnmarshalVT :: "CopyStream_Info \<Rightarrow> bytes \<Rightarrow> CopyStream_Info result" where
  "CopyStream_Info_UnmarshalVT m d =
     fields_loop ''CopyStream_Info'' CopyStream_Info_field CopyStream_Info_unknown m d 0"

definition CopyStream_Info_bytes :: "CopyStream_Info \<Rightarrow> bytes" where
  "CopyStream_Info_bytes m =
     uint_field 0x8 (ci_Ttl m) @
     bool_field 0x10 (ci_Compressed m) @
     bytes_field 0x1A (ci_MasterKeyNonce m) @
     bytes_field 0x22 (ci_KeyNonce m) @
     bytes_field 0x2A (ci_Iv m) @
     ci_unknownFields m"

lemma emits_CopyStream_Info [intro]: "emits (CopyStream_Info_MarshalToSizedBufferVT m) (CopyStream_Info_bytes m)"
  unfolding CopyStream_Info_MarshalToSizedBufferVT_def CopyStream_Info_bytes_def
  by (rule emits_allI, (rule list.rel_intros emits_fields)+, simp)

lemma length_CopyStream_Info_bytes: "length (CopyStream_Info_bytes m) = CopyStream_Info_SizeVT m"
  by (simp add: CopyStream_Info_bytes_def CopyStream_Info_SizeVT_def)

lemma CopyStream_Info_MarshalVT_eq: "CopyStream_Info_MarshalVT m = Ok (CopyStream_Info_bytes m)"
  unfolding CopyStream_Info_MarshalVT_def by (rule MarshalVT_emits) (auto simp: length_CopyStream_Info_bytes)

lemma good_CopyStream_Info_field [simp]: "good_fields CopyStream_Info_field"
  by (auto simp: good_fields_def CopyStream_Info_field_def split: if_splits dest: field_mono)

lemma CopyStream_Info_UnmarshalVT_bytes:
  assumes "ci_unknownFields m = []" and "length (CopyStream_Info_bytes m) < 2 ^ 63"
  shows "CopyStream_Info_UnmarshalVT CopyStream_Info_empty (CopyStream_Info_bytes m) = Ok m"
proof -
  let ?F = "fields_loop ''CopyStream_Info'' CopyStream_Info_field CopyStream_Info_unknown"
  have c1: "consumes ?F (\<lambda>x. if ci_Ttl m = 0 then x else x\<lparr>ci_Ttl := ci_Ttl m\<rparr>) (uint_field 0x8 (ci_Ttl m))"
    by (rule consumes_uint_field [where tag = "0x8" and upd = "\<lambda>v m. m\<lparr>ci_Ttl := v\<rparr>"])
       (simp_all add: tag_field_def tag_type_def CopyStream_Info_field_def cong: if_cong)
  have c2: "consumes ?F (\<lambda>x. if ci_Compressed m then x\<lparr>ci_Compressed := True\<rparr> else x) (bool_field 0x10 (ci_Compressed m))"
    by (rule consumes_bool_field [where tag = "0x10" and upd = "\<lambda>v m. m\<lparr>ci_Compressed := v\<rparr>"])
       (simp_all add: tag_field_def tag_type_def CopyStream_Info_field_def cong: if_cong)
  have c3: "consumes ?F (\<lambda>x. if ci_MasterKeyNonce m = [] then x else x\<lparr>ci_MasterKeyNonce := ci_MasterKeyNonce m\<rparr>) (bytes_field 0x1A (ci_MasterKeyNonce m))"
    by (rule consumes_bytes_field [where tag = "0x1A" and upd = "\<lambda>v m. m\<lparr>ci_MasterKeyNonce := v\<rparr>"])
       (simp_all add: tag_field_def tag_type_def CopyStream_Info_field_def cong: if_cong)
  have c4: "consumes ?F (\<lambda>x. if ci_KeyNonce m = [] then x else x\<lparr>ci_KeyNonce := ci_KeyNonce m\<rparr>) (bytes_field 0x22 (ci_KeyNonce m))"
    by (rule consumes_bytes_field [where tag = "0x22" and upd = "\<lambda>v m. m\<lparr>ci_KeyNonce := v\<rparr>"])
       (simp_all add: tag_field_def tag_type_def CopyStream_Info_field_def cong: if_cong)
  have c5: "consumes ?F (\<lambda>x. if ci_Iv m = [] then x else x\<lparr>ci_Iv := ci_Iv m\<rparr>) (bytes_field 0x2A (ci_Iv m))"
    by (rule consumes_bytes_field [where tag = "0x2A" and upd = "\<lambda>v m. m\<lparr>ci_Iv := v\<rparr>"])
       (simp_all add: tag_field_def tag_type_def CopyStream_Info_field_def cong: if_cong)
  note c = consumes_append [OF c1 consumes_append [OF c2 consumes_append [OF c3 consumes_append [OF c4 c5]]]]
  from consumes_all [OF c, of CopyStream_Info_empty] assms show ?thesis
    by (cases m) (simp add: CopyStream_Info_UnmarshalVT_def CopyStream_Info_bytes_def CopyStream_Info_empty_def)
qed

end
