(* ===== verification/Messages_Stream.thy ===== *)
theory Messages_Stream
  imports Messages
begin

text \<open>
  The messages with nested contents: the oneof streams \<open>PastStream\<close> and \<open>CopyStream\<close> that Copy and Paste
  exchange, with their getters, and \<open>LockedTransaction\<close>, whose \<open>Versions\<close> map is encoded as repeated
  key/value entries. A oneof wrapper always holds a message (every place in the program that builds one
  does so, and so does \<open>UnmarshalVT\<close>), so its nil checks are not modelled.

  Go iterates over a map in an unspecified order; the marshaller of \<open>LockedTransaction\<close> takes that order
  as an argument, a list of the map's entries.
\<close>

subsection \<open>Nested writers\<close>

text \<open>
  \<^verbatim>\<open>vtmsg.MarshalToVT(dAtA[i:])\<close> after \<^verbatim>\<open>i -= size\<close>: the nested writer works on the window of \<open>size\<close> bytes
  before the index.
\<close>

fun emit_sub :: "nat \<Rightarrow> enc \<Rightarrow> enc" where
  "emit_sub n f (d, i) =
     (if i < n then Panic IndexOutOfRange
      else bind_result (f (take n (drop (i - n) d), n)) (\<lambda>(s, _).
        Ok (take (i - n) d @ s @ drop i d, i - n)))"

text \<open>\<^verbatim>\<open>MarshalToSizedBufferVT(dAtA[:i])\<close>: the nested writer works on the prefix before the index.\<close>

fun emit_prefix :: "enc \<Rightarrow> enc" where
  "emit_prefix f (d, i) =
     bind_result (f (take i d, i)) (\<lambda>(d', i'). Ok (d' @ drop i d, i'))"

text \<open>Then the size it wrote, as a varint, and the tag.\<close>

fun emit_framed :: "byte \<Rightarrow> enc \<Rightarrow> enc" where
  "emit_framed tag f (d, i) =
     bind_result (f (d, i)) (\<lambda>(d', i').
       emit_seq (encodeVarint (word_of_nat (i - i'))) (put_byte tag) (d', i'))"

lemma emits_sub [intro]: "emits f bs \<Longrightarrow> n = length bs \<Longrightarrow> emits (emit_sub n f) bs"
  by (simp add: emits_def)

lemma emits_prefix [intro]: "emits f bs \<Longrightarrow> emits (emit_prefix f) bs"
  by (simp add: emits_def)

lemma emits_framed [intro]:
  assumes "emits f bs"
  shows "emits (emit_framed tag f) (bytes_always tag bs)"
  unfolding emits_def
proof (intro allI impI)
  fix d :: bytes and i
  let ?h = "tag # varint (word_of_nat (length bs))"
  let ?d = "take (i - length bs) d @ bs @ drop i d"
  assume i: "length (bytes_always tag bs) \<le> i" "i \<le> length d"
  then have len: "length ?h + length bs \<le> i"
    by (simp add: bytes_always_def size_bytes_always_def length_varint)
  have "f (d, i) = Ok (?d, i - length bs)"
    using assms i len by (simp add: emits_def)
  moreover have "emit_seq (encodeVarint (word_of_nat (length bs))) (put_byte tag) (?d, i - length bs) =
      Ok (take (i - length bs - length ?h) ?d @ ?h @ drop (i - length bs) ?d, i - length bs - length ?h)"
    using emits_seq [OF emits_encodeVarint emits_put_byte, of "word_of_nat (length bs)" tag] i len
    unfolding emits_def by (simp only: append.simps append_Nil) auto
  ultimately show "emit_framed tag f (d, i) =
      Ok (take (i - length (bytes_always tag bs)) d @ bytes_always tag bs @ drop i d,
          i - length (bytes_always tag bs))"
    using i len by (simp add: bytes_always_def add.commute length_varint size_bytes_always_def)
qed

subsection \<open>PastStream\<close>

datatype PastStream_data =
    PS_Info PastStream_Info
  | PS_Chunk bytes
  | PS_Checksum bytes
  | PS_Error PastStream_Error

record PastStream =
  ps_Data :: "PastStream_data option"
  ps_unknownFields :: bytes

definition PastStream_GetInfo :: "PastStream \<Rightarrow> PastStream_Info option" where
  "PastStream_GetInfo x = (case ps_Data x of Some (PS_Info i) \<Rightarrow> Some i | _ \<Rightarrow> None)"

definition PastStream_GetChunk :: "PastStream \<Rightarrow> bytes" where
  "PastStream_GetChunk x = (case ps_Data x of Some (PS_Chunk c) \<Rightarrow> c | _ \<Rightarrow> [])"

definition PastStream_GetChecksum :: "PastStream \<Rightarrow> bytes" where
  "PastStream_GetChecksum x = (case ps_Data x of Some (PS_Checksum c) \<Rightarrow> c | _ \<Rightarrow> [])"

definition PastStream_GetError :: "PastStream \<Rightarrow> PastStream_Error option" where
  "PastStream_GetError x = (case ps_Data x of Some (PS_Error e) \<Rightarrow> Some e | _ \<Rightarrow> None)"

fun PastStream_data_SizeVT :: "PastStream_data \<Rightarrow> nat" where
  "PastStream_data_SizeVT (PS_Info v) =
     (let l = PastStream_Info_SizeVT v in 1 + l + sov (word_of_nat l))"
| "PastStream_data_SizeVT (PS_Chunk x) = size_bytes_always x"
| "PastStream_data_SizeVT (PS_Checksum x) = size_bytes_always x"
| "PastStream_data_SizeVT (PS_Error v) =
     (let l = PastStream_Error_SizeVT v in 1 + l + sov (word_of_nat l))"

fun PastStream_data_MarshalToSizedBufferVT :: "PastStream_data \<Rightarrow> enc" where
  "PastStream_data_MarshalToSizedBufferVT (PS_Info v) =
     emit_framed 0xA (emit_prefix (PastStream_Info_MarshalToSizedBufferVT v))"
| "PastStream_data_MarshalToSizedBufferVT (PS_Chunk x) = emit_bytes_always 0x12 x"
| "PastStream_data_MarshalToSizedBufferVT (PS_Checksum x) = emit_bytes_always 0x1A x"
| "PastStream_data_MarshalToSizedBufferVT (PS_Error v) =
     emit_framed 0x22 (emit_prefix (PastStream_Error_MarshalToSizedBufferVT v))"

definition PastStream_SizeVT :: "PastStream \<Rightarrow> nat" where
  "PastStream_SizeVT m =
     (case ps_Data m of None \<Rightarrow> 0 | Some v \<Rightarrow> PastStream_data_SizeVT v) +
     length (ps_unknownFields m)"

definition PastStream_MarshalToSizedBufferVT :: "PastStream \<Rightarrow> enc" where
  "PastStream_MarshalToSizedBufferVT m = emit_seq (put_bytes (ps_unknownFields m))
     (case ps_Data m of
        None \<Rightarrow> emit_nothing
      | Some v \<Rightarrow> emit_sub (PastStream_data_SizeVT v) (PastStream_data_MarshalToSizedBufferVT v))"

definition PastStream_MarshalVT :: "PastStream \<Rightarrow> bytes result" where
  "PastStream_MarshalVT m = MarshalVT (PastStream_SizeVT m) (PastStream_MarshalToSizedBufferVT m)"

text \<open>A length-delimited case of a oneof switch.\<close>

definition field_oneof ::
  "string \<Rightarrow> (bytes \<Rightarrow> 'm \<Rightarrow> 'm result) \<Rightarrow> 'm \<Rightarrow> 64 word \<Rightarrow> bytes \<Rightarrow> nat \<Rightarrow> ('m \<times> nat) result" where
  "field_oneof name upd m wireType d i =
     (if wireType \<noteq> 2 then Err (ErrWireType (sint wireType) name)
      else bind_result (read_slice d i) (\<lambda>(x, j). bind_result (upd x m) (\<lambda>m'. Ok (m', j))))"

lemma field_oneof_good:
  "(\<And>x. returns (upd x m)) \<Longrightarrow> returns (field_oneof name upd m w d i)"
  "field_oneof name upd m w d i = Ok (m', j) \<Longrightarrow> i \<le> j"
  by (auto simp: field_oneof_def bind_result_Ok_iff split: if_splits
      intro!: returns_bind dest!: read_slice_progress)

text \<open>The four cases of the switch: a nested message is merged into one already there.\<close>

definition PastStream_read_Info :: "bytes \<Rightarrow> PastStream \<Rightarrow> PastStream result" where
  "PastStream_read_Info x m = bind_result
     (case ps_Data m of Some (PS_Info v) \<Rightarrow> PastStream_Info_UnmarshalVT v x
                      | _ \<Rightarrow> PastStream_Info_UnmarshalVT PastStream_Info_empty x)
     (\<lambda>v. Ok (m\<lparr>ps_Data := Some (PS_Info v)\<rparr>))"

definition PastStream_read_Chunk :: "bytes \<Rightarrow> PastStream \<Rightarrow> PastStream result" where
  "PastStream_read_Chunk x m = Ok (m\<lparr>ps_Data := Some (PS_Chunk x)\<rparr>)"

definition PastStream_read_Checksum :: "bytes \<Rightarrow> PastStream \<Rightarrow> PastStream result" where
  "PastStream_read_Checksum x m = Ok (m\<lparr>ps_Data := Some (PS_Checksum x)\<rparr>)"

definition PastStream_read_Error :: "bytes \<Rightarrow> PastStream \<Rightarrow> PastStream result" where
  "PastStream_read_Error x m = bind_result
     (case ps_Data m of Some (PS_Error v) \<Rightarrow> PastStream_Error_UnmarshalVT v x
                      | _ \<Rightarrow> PastStream_Error_UnmarshalVT PastStream_Error_empty x)
     (\<lambda>v. Ok (m\<lparr>ps_Data := Some (PS_Error v)\<rparr>))"

definition PastStream_field :: "PastStream fields" where
  "PastStream_field m f w d i =
     (if f = 1 then Some (field_oneof ''Info'' PastStream_read_Info m w d i)
      else if f = 2 then Some (field_oneof ''Chunk'' PastStream_read_Chunk m w d i)
      else if f = 3 then Some (field_oneof ''Checksum'' PastStream_read_Checksum m w d i)
      else if f = 4 then Some (field_oneof ''Error'' PastStream_read_Error m w d i)
      else None)"

lemmas PastStream_reads = PastStream_read_Info_def PastStream_read_Chunk_def
  PastStream_read_Checksum_def PastStream_read_Error_def

definition PastStream_unknown :: "bytes \<Rightarrow> PastStream \<Rightarrow> PastStream" where
  "PastStream_unknown x m = m\<lparr>ps_unknownFields := ps_unknownFields m @ x\<rparr>"

definition PastStream_empty :: PastStream where
  "PastStream_empty = \<lparr>ps_Data = None, ps_unknownFields = []\<rparr>"

definition PastStream_UnmarshalVT :: "PastStream \<Rightarrow> bytes \<Rightarrow> PastStream result" where
  "PastStream_UnmarshalVT m d =
     fields_loop ''PastStream'' PastStream_field PastStream_unknown m d 0"

fun PastStream_data_bytes :: "PastStream_data \<Rightarrow> bytes" where
  "PastStream_data_bytes (PS_Info v) = bytes_always 0xA (PastStream_Info_bytes v)"
| "PastStream_data_bytes (PS_Chunk x) = bytes_always 0x12 x"
| "PastStream_data_bytes (PS_Checksum x) = bytes_always 0x1A x"
| "PastStream_data_bytes (PS_Error v) = bytes_always 0x22 (PastStream_Error_bytes v)"

definition PastStream_bytes :: "PastStream \<Rightarrow> bytes" where
  "PastStream_bytes m =
     (case ps_Data m of None \<Rightarrow> [] | Some v \<Rightarrow> PastStream_data_bytes v) @ ps_unknownFields m"

lemma length_PastStream_data_bytes:
  "length (PastStream_data_bytes v) = PastStream_data_SizeVT v"
  by (cases v) (simp_all add: size_bytes_always_def Let_def length_PastStream_Info_bytes
      length_PastStream_Error_bytes)

lemma emits_PastStream_data:
  "emits (PastStream_data_MarshalToSizedBufferVT v) (PastStream_data_bytes v)"
  by (cases v) auto

lemma emits_PastStream: "emits (PastStream_MarshalToSizedBufferVT m) (PastStream_bytes m)"
  unfolding PastStream_MarshalToSizedBufferVT_def PastStream_bytes_def
  by (rule emits_seq) (auto simp: emits_PastStream_data length_PastStream_data_bytes split: option.splits)

lemma length_PastStream_bytes: "length (PastStream_bytes m) = PastStream_SizeVT m"
  by (simp add: PastStream_SizeVT_def PastStream_bytes_def length_PastStream_data_bytes split: option.splits)

lemma PastStream_MarshalVT_eq: "PastStream_MarshalVT m = Ok (PastStream_bytes m)"
  unfolding PastStream_MarshalVT_def
  by (rule MarshalVT_emits [OF emits_PastStream])
     (simp add: PastStream_SizeVT_def PastStream_bytes_def length_PastStream_data_bytes split: option.splits)

lemma scalar_UnmarshalVT_returns [simp]:
  "returns (PastStream_Info_UnmarshalVT v x)" "returns (PastStream_Error_UnmarshalVT e x)"
  "returns (CopyStream_Info_UnmarshalVT c x)"
  by (simp_all add: PastStream_Info_UnmarshalVT_def PastStream_Error_UnmarshalVT_def
      CopyStream_Info_UnmarshalVT_def fields_loop_returns)

lemma good_PastStream_field [simp]: "good_fields PastStream_field"
  unfolding good_fields_def PastStream_field_def PastStream_reads
  by (auto split: if_splits option.splits PastStream_data.splits
      intro!: field_oneof_good(1) returns_bind dest: field_oneof_good(2))

text \<open>The nested message of a oneof carries no unknown fields.\<close>

fun PastStream_data_known :: "PastStream_data \<Rightarrow> bool" where
  "PastStream_data_known (PS_Info v) \<longleftrightarrow> pi_unknownFields v = []"
| "PastStream_data_known (PS_Error v) \<longleftrightarrow> pe_unknownFields v = []"
| "PastStream_data_known _ \<longleftrightarrow> True"

lemma PastStream_UnmarshalVT_bytes:
  assumes "m = \<lparr>ps_Data = Some v, ps_unknownFields = []\<rparr>" and "PastStream_data_known v"
    and "length (PastStream_bytes m) < 2 ^ 63"
  shows "PastStream_UnmarshalVT PastStream_empty (PastStream_bytes m) = Ok m"
proof -
  note tag = tag_field_def tag_type_def
  let ?L = "fields_loop ''PastStream'' PastStream_field PastStream_unknown PastStream_empty"
  have len: "length (PastStream_data_bytes v) < 2 ^ 63"
    using assms(1,3) by (simp add: PastStream_bytes_def)
  have "?L (PastStream_data_bytes v) 0 = Ok m"
  proof (cases v)
    case (PS_Info i)
    with len have "length (PastStream_Info_bytes i) < 2 ^ 63"
      by (simp add: size_bytes_always_def)
    with PS_Info assms have "PastStream_Info_UnmarshalVT PastStream_Info_empty (PastStream_Info_bytes i) = Ok i"
      by (simp add: PastStream_Info_UnmarshalVT_bytes)
    with PS_Info assms(1) len show ?thesis
      by (simp only: PastStream_data_bytes.simps, intro fields_loop_single [where tag = "0xA" and upd = PastStream_read_Info])
         (simp_all add: tag PastStream_field_def field_oneof_def PastStream_empty_def PastStream_reads)
  next
    case (PS_Error e)
    with len have "length (PastStream_Error_bytes e) < 2 ^ 63"
      by (simp add: size_bytes_always_def)
    with PS_Error assms have "PastStream_Error_UnmarshalVT PastStream_Error_empty (PastStream_Error_bytes e) = Ok e"
      by (simp add: PastStream_Error_UnmarshalVT_bytes)
    with PS_Error assms(1) len show ?thesis
      by (simp only: PastStream_data_bytes.simps, intro fields_loop_single [where tag = "0x22" and upd = PastStream_read_Error])
         (simp_all add: tag PastStream_field_def field_oneof_def PastStream_empty_def PastStream_reads)
  next
    case (PS_Chunk x)
    with assms(1) len show ?thesis
      by (simp only: PastStream_data_bytes.simps, intro fields_loop_single [where tag = "0x12" and upd = PastStream_read_Chunk])
         (simp_all add: tag PastStream_field_def field_oneof_def PastStream_empty_def PastStream_reads)
  next
    case (PS_Checksum x)
    with assms(1) len show ?thesis
      by (simp only: PastStream_data_bytes.simps, intro fields_loop_single [where tag = "0x1A" and upd = PastStream_read_Checksum])
         (simp_all add: tag PastStream_field_def field_oneof_def PastStream_empty_def PastStream_reads)
  qed
  with assms(1) show ?thesis
    by (simp add: PastStream_UnmarshalVT_def PastStream_bytes_def)
qed

subsection \<open>CopyStream\<close>

datatype CopyStream_data =
    CS_Info CopyStream_Info
  | CS_Chunk bytes
  | CS_Checksum bytes

record CopyStream =
  cs_Data :: "CopyStream_data option"
  cs_unknownFields :: bytes

definition CopyStream_GetInfo :: "CopyStream \<Rightarrow> CopyStream_Info option" where
  "CopyStream_GetInfo x = (case cs_Data x of Some (CS_Info i) \<Rightarrow> Some i | _ \<Rightarrow> None)"

definition CopyStream_GetChunk :: "CopyStream \<Rightarrow> bytes" where
  "CopyStream_GetChunk x = (case cs_Data x of Some (CS_Chunk c) \<Rightarrow> c | _ \<Rightarrow> [])"

definition CopyStream_GetChecksum :: "CopyStream \<Rightarrow> bytes" where
  "CopyStream_GetChecksum x = (case cs_Data x of Some (CS_Checksum c) \<Rightarrow> c | _ \<Rightarrow> [])"

fun CopyStream_data_SizeVT :: "CopyStream_data \<Rightarrow> nat" where
  "CopyStream_data_SizeVT (CS_Info v) =
     (let l = CopyStream_Info_SizeVT v in 1 + l + sov (word_of_nat l))"
| "CopyStream_data_SizeVT (CS_Chunk x) = size_bytes_always x"
| "CopyStream_data_SizeVT (CS_Checksum x) = size_bytes_always x"

fun CopyStream_data_MarshalToSizedBufferVT :: "CopyStream_data \<Rightarrow> enc" where
  "CopyStream_data_MarshalToSizedBufferVT (CS_Info v) =
     emit_framed 0xA (emit_prefix (CopyStream_Info_MarshalToSizedBufferVT v))"
| "CopyStream_data_MarshalToSizedBufferVT (CS_Chunk x) = emit_bytes_always 0x12 x"
| "CopyStream_data_MarshalToSizedBufferVT (CS_Checksum x) = emit_bytes_always 0x1A x"

definition CopyStream_SizeVT :: "CopyStream \<Rightarrow> nat" where
  "CopyStream_SizeVT m =
     (case cs_Data m of None \<Rightarrow> 0 | Some v \<Rightarrow> CopyStream_data_SizeVT v) +
     length (cs_unknownFields m)"

definition CopyStream_MarshalToSizedBufferVT :: "CopyStream \<Rightarrow> enc" where
  "CopyStream_MarshalToSizedBufferVT m = emit_seq (put_bytes (cs_unknownFields m))
     (case cs_Data m of
        None \<Rightarrow> emit_nothing
      | Some v \<Rightarrow> emit_sub (CopyStream_data_SizeVT v) (CopyStream_data_MarshalToSizedBufferVT v))"

definition CopyStream_MarshalVT :: "CopyStream \<Rightarrow> bytes result" where
  "CopyStream_MarshalVT m = MarshalVT (CopyStream_SizeVT m) (CopyStream_MarshalToSizedBufferVT m)"

text \<open>The cases of the switch: a nested message is merged into one already there.\<close>

definition CopyStream_read_Info :: "bytes \<Rightarrow> CopyStream \<Rightarrow> CopyStream result" where
  "CopyStream_read_Info x m = bind_result
     (case cs_Data m of Some (CS_Info v) \<Rightarrow> CopyStream_Info_UnmarshalVT v x
                      | _ \<Rightarrow> CopyStream_Info_UnmarshalVT CopyStream_Info_empty x)
     (\<lambda>v. Ok (m\<lparr>cs_Data := Some (CS_Info v)\<rparr>))"

definition CopyStream_read_Chunk :: "bytes \<Rightarrow> CopyStream \<Rightarrow> CopyStream result" where
  "CopyStream_read_Chunk x m = Ok (m\<lparr>cs_Data := Some (CS_Chunk x)\<rparr>)"

definition CopyStream_read_Checksum :: "bytes \<Rightarrow> CopyStream \<Rightarrow> CopyStream result" where
  "CopyStream_read_Checksum x m = Ok (m\<lparr>cs_Data := Some (CS_Checksum x)\<rparr>)"

definition CopyStream_field :: "CopyStream fields" where
  "CopyStream_field m f w d i =
     (if f = 1 then Some (field_oneof ''Info'' CopyStream_read_Info m w d i)
      else if f = 2 then Some (field_oneof ''Chunk'' CopyStream_read_Chunk m w d i)
      else if f = 3 then Some (field_oneof ''Checksum'' CopyStream_read_Checksum m w d i)
      else None)"

lemmas CopyStream_reads = CopyStream_read_Info_def CopyStream_read_Chunk_def
  CopyStream_read_Checksum_def

definition CopyStream_unknown :: "bytes \<Rightarrow> CopyStream \<Rightarrow> CopyStream" where
  "CopyStream_unknown x m = m\<lparr>cs_unknownFields := cs_unknownFields m @ x\<rparr>"

definition CopyStream_empty :: CopyStream where
  "CopyStream_empty = \<lparr>cs_Data = None, cs_unknownFields = []\<rparr>"

definition CopyStream_UnmarshalVT :: "CopyStream \<Rightarrow> bytes \<Rightarrow> CopyStream result" where
  "CopyStream_UnmarshalVT m d =
     fields_loop ''CopyStream'' CopyStream_field CopyStream_unknown m d 0"

fun CopyStream_data_bytes :: "CopyStream_data \<Rightarrow> bytes" where
  "CopyStream_data_bytes (CS_Info v) = bytes_always 0xA (CopyStream_Info_bytes v)"
| "CopyStream_data_bytes (CS_Chunk x) = bytes_always 0x12 x"
| "CopyStream_data_bytes (CS_Checksum x) = bytes_always 0x1A x"

definition CopyStream_bytes :: "CopyStream \<Rightarrow> bytes" where
  "CopyStream_bytes m =
     (case cs_Data m of None \<Rightarrow> [] | Some v \<Rightarrow> CopyStream_data_bytes v) @ cs_unknownFields m"

lemma length_CopyStream_data_bytes:
  "length (CopyStream_data_bytes v) = CopyStream_data_SizeVT v"
  by (cases v) (simp_all add: size_bytes_always_def Let_def length_CopyStream_Info_bytes)

lemma emits_CopyStream_data:
  "emits (CopyStream_data_MarshalToSizedBufferVT v) (CopyStream_data_bytes v)"
  by (cases v) auto

lemma emits_CopyStream: "emits (CopyStream_MarshalToSizedBufferVT m) (CopyStream_bytes m)"
  unfolding CopyStream_MarshalToSizedBufferVT_def CopyStream_bytes_def
  by (rule emits_seq) (auto simp: emits_CopyStream_data length_CopyStream_data_bytes split: option.splits)

lemma length_CopyStream_bytes: "length (CopyStream_bytes m) = CopyStream_SizeVT m"
  by (simp add: CopyStream_SizeVT_def CopyStream_bytes_def length_CopyStream_data_bytes split: option.splits)

lemma CopyStream_MarshalVT_eq: "CopyStream_MarshalVT m = Ok (CopyStream_bytes m)"
  unfolding CopyStream_MarshalVT_def
  by (rule MarshalVT_emits [OF emits_CopyStream])
     (simp add: CopyStream_SizeVT_def CopyStream_bytes_def length_CopyStream_data_bytes split: option.splits)

lemma good_CopyStream_field [simp]: "good_fields CopyStream_field"
  unfolding good_fields_def CopyStream_field_def CopyStream_reads
  by (auto split: if_splits option.splits CopyStream_data.splits
      intro!: field_oneof_good(1) returns_bind dest: field_oneof_good(2))

fun CopyStream_data_known :: "CopyStream_data \<Rightarrow> bool" where
  "CopyStream_data_known (CS_Info v) \<longleftrightarrow> ci_unknownFields v = []"
| "CopyStream_data_known _ \<longleftrightarrow> True"

lemma CopyStream_UnmarshalVT_bytes:
  assumes "m = \<lparr>cs_Data = Some v, cs_unknownFields = []\<rparr>" and "CopyStream_data_known v"
    and "length (CopyStream_bytes m) < 2 ^ 63"
  shows "CopyStream_UnmarshalVT CopyStream_empty (CopyStream_bytes m) = Ok m"
proof -
  note tag = tag_field_def tag_type_def
  let ?L = "fields_loop ''CopyStream'' CopyStream_field CopyStream_unknown CopyStream_empty"
  have len: "length (CopyStream_data_bytes v) < 2 ^ 63"
    using assms(1,3) by (simp add: CopyStream_bytes_def)
  have "?L (CopyStream_data_bytes v) 0 = Ok m"
  proof (cases v)
    case (CS_Info i)
    with len have "length (CopyStream_Info_bytes i) < 2 ^ 63"
      by (simp add: size_bytes_always_def)
    with CS_Info assms have "CopyStream_Info_UnmarshalVT CopyStream_Info_empty (CopyStream_Info_bytes i) = Ok i"
      by (simp add: CopyStream_Info_UnmarshalVT_bytes)
    with CS_Info assms(1) len show ?thesis
      by (simp only: CopyStream_data_bytes.simps, intro fields_loop_single [where tag = "0xA" and upd = CopyStream_read_Info])
         (simp_all add: tag CopyStream_field_def field_oneof_def CopyStream_empty_def CopyStream_reads)
  next
    case (CS_Chunk x)
    with assms(1) len show ?thesis
      by (simp only: CopyStream_data_bytes.simps, intro fields_loop_single [where tag = "0x12" and upd = CopyStream_read_Chunk])
         (simp_all add: tag CopyStream_field_def field_oneof_def CopyStream_empty_def CopyStream_reads)
  next
    case (CS_Checksum x)
    with assms(1) len show ?thesis
      by (simp only: CopyStream_data_bytes.simps, intro fields_loop_single [where tag = "0x1A" and upd = CopyStream_read_Checksum])
         (simp_all add: tag CopyStream_field_def field_oneof_def CopyStream_empty_def CopyStream_reads)
  qed
  with assms(1) show ?thesis
    by (simp add: CopyStream_UnmarshalVT_def CopyStream_bytes_def)
qed


subsection \<open>LockedTransaction\<close>

record LockedTransaction =
  lt_Versions :: "bytes \<rightharpoonup> bytes"
  lt_unknownFields :: bytes

definition LockedTransaction_empty :: LockedTransaction where
  "LockedTransaction_empty = \<lparr>lt_Versions = Map.empty, lt_unknownFields = []\<rparr>"

text \<open>\<open>order\<close> is the order in which \<^verbatim>\<open>range m.Versions\<close> visits the entries.\<close>

fun entry_SizeVT :: "bytes \<times> bytes \<Rightarrow> nat" where
  "entry_SizeVT (k, v) =
     (let l = 1 + length v + sov (word_of_nat (length v));
          mapEntrySize = 1 + length k + sov (word_of_nat (length k)) + l
      in mapEntrySize + 1 + sov (word_of_nat mapEntrySize))"

definition LockedTransaction_SizeVT :: "(bytes \<times> bytes) list \<Rightarrow> LockedTransaction \<Rightarrow> nat" where
  "LockedTransaction_SizeVT order m =
     sum_list (map entry_SizeVT order) + length (lt_unknownFields m)"

fun entry_Marshal :: "bytes \<times> bytes \<Rightarrow> enc" where
  "entry_Marshal (k, v) =
     emit_framed 0xA (emit_seq (emit_bytes_always 0x12 v) (emit_bytes_always 0xA k))"

definition LockedTransaction_MarshalToSizedBufferVT ::
  "(bytes \<times> bytes) list \<Rightarrow> LockedTransaction \<Rightarrow> enc" where
  "LockedTransaction_MarshalToSizedBufferVT order m =
     emit_seq (put_bytes (lt_unknownFields m)) (emit_all (map entry_Marshal order))"

definition LockedTransaction_MarshalVT ::
  "(bytes \<times> bytes) list \<Rightarrow> LockedTransaction \<Rightarrow> bytes result" where
  "LockedTransaction_MarshalVT order m =
     MarshalVT (LockedTransaction_SizeVT order m) (LockedTransaction_MarshalToSizedBufferVT order m)"

text \<open>
  Reading one entry: the loop over the fields of the entry between \<open>iNdEx\<close> and \<open>postIndex\<close>. As in the
  code, the wire types of key and value are not checked and their lengths are bounded by the whole
  buffer.
\<close>

definition entry_field ::
  "bytes \<Rightarrow> nat \<Rightarrow> nat \<Rightarrow> bytes \<Rightarrow> bytes \<Rightarrow> (bytes \<times> bytes \<times> nat) result" where
  "entry_field d postIndex entryPreIndex mapkey mapvalue =
     bind_result (decodeVarint d entryPreIndex) (\<lambda>(wire, i1).
       if tag_field wire = 1 then
         bind_result (read_slice d i1) (\<lambda>(x, j). Ok (x, mapvalue, j))
       else if tag_field wire = 2 then
         bind_result (read_slice d i1) (\<lambda>(x, j). Ok (mapkey, x, j))
       else
         bind_result (skip (drop entryPreIndex d)) (\<lambda>skippy.
           if 2 ^ 63 \<le> entryPreIndex + skippy then Err ErrInvalidLength
           else if postIndex < entryPreIndex + skippy then Err ErrUnexpectedEOF
           else Ok (mapkey, mapvalue, entryPreIndex + skippy)))"

function entry_loop :: "bytes \<Rightarrow> nat \<Rightarrow> nat \<Rightarrow> bytes \<Rightarrow> bytes \<Rightarrow> (bytes \<times> bytes) result" where
  "entry_loop d postIndex i mapkey mapvalue =
     (if i < postIndex then
        bind_result (entry_field d postIndex i mapkey mapvalue) (\<lambda>(k, v, i').
          if i < i' then entry_loop d postIndex i' k v else Loop)
      else Ok (mapkey, mapvalue))"
  by pat_completeness auto
termination
  by (relation "measure (\<lambda>(d, postIndex, i, k, v). postIndex - i)") auto

declare entry_loop.simps [simp del]

definition LockedTransaction_field :: "LockedTransaction fields" where
  "LockedTransaction_field m f w d i =
     (if f = 1 then Some (
        if w \<noteq> 2 then Err (ErrWireType (sint w) ''Versions'')
        else bind_result (read_span d i) (\<lambda>(i1, postIndex).
          bind_result (entry_loop d postIndex i1 [] []) (\<lambda>(k, v).
            Ok (m\<lparr>lt_Versions := (lt_Versions m)(k \<mapsto> v)\<rparr>, postIndex))))
      else None)"

definition LockedTransaction_unknown :: "bytes \<Rightarrow> LockedTransaction \<Rightarrow> LockedTransaction" where
  "LockedTransaction_unknown x m = m\<lparr>lt_unknownFields := lt_unknownFields m @ x\<rparr>"

definition LockedTransaction_UnmarshalVT ::
  "LockedTransaction \<Rightarrow> bytes \<Rightarrow> LockedTransaction result" where
  "LockedTransaction_UnmarshalVT m d =
     fields_loop ''LockedTransaction'' LockedTransaction_field LockedTransaction_unknown m d 0"

fun entry_payload :: "bytes \<times> bytes \<Rightarrow> bytes" where
  "entry_payload (k, v) = bytes_always 0xA k @ bytes_always 0x12 v"

definition entry_bytes :: "bytes \<times> bytes \<Rightarrow> bytes" where
  "entry_bytes kv = bytes_always 0xA (entry_payload kv)"

definition LockedTransaction_bytes :: "(bytes \<times> bytes) list \<Rightarrow> LockedTransaction \<Rightarrow> bytes" where
  "LockedTransaction_bytes order m = concat (map entry_bytes (rev order)) @ lt_unknownFields m"

lemma length_entry_bytes: "length (entry_bytes kv) = entry_SizeVT kv"
  by (cases kv) (simp add: entry_bytes_def size_bytes_always_def Let_def add_ac)

lemma emits_entry: "emits (entry_Marshal kv) (entry_bytes kv)"
  by (cases kv) (auto simp: entry_bytes_def)

lemma emits_LockedTransaction:
  "emits (LockedTransaction_MarshalToSizedBufferVT order m) (LockedTransaction_bytes order m)"
proof -
  have "list_all2 emits (map entry_Marshal order) (map entry_bytes order)"
    by (induction order) (auto simp: emits_entry)
  then have "emits (emit_all (map entry_Marshal order)) (concat (map entry_bytes (rev order)))"
    by (rule emits_allI) (simp add: rev_map)
  then show ?thesis
    unfolding LockedTransaction_MarshalToSizedBufferVT_def LockedTransaction_bytes_def by auto
qed

lemma length_LockedTransaction_bytes:
  "length (LockedTransaction_bytes order m) = LockedTransaction_SizeVT order m"
proof -
  have "length (concat (map entry_bytes (rev order))) = sum_list (map entry_SizeVT order)"
    by (induction order) (simp_all add: length_entry_bytes)
  then show ?thesis by (simp add: LockedTransaction_bytes_def LockedTransaction_SizeVT_def)
qed

lemma LockedTransaction_MarshalVT_eq:
  "LockedTransaction_MarshalVT order m = Ok (LockedTransaction_bytes order m)"
  unfolding LockedTransaction_MarshalVT_def
  by (rule MarshalVT_emits [OF emits_LockedTransaction]) (simp add: length_LockedTransaction_bytes)

lemma entry_field_good:
  "returns (entry_field d p i k v)"
  "entry_field d p i k v = Ok (k', v', j) \<Longrightarrow> i < j"
  by (auto simp: entry_field_def bind_result_Ok_iff split: if_splits intro!: returns_bind
      dest!: decodeVarint_progress read_slice_progress skip_pos)

lemma entry_loop_returns: "returns (entry_loop d p i k v)"
proof (induction d p i k v rule: entry_loop.induct)
  case (1 d p i k v)
  show ?case
    by (subst entry_loop.simps) (auto intro!: returns_bind 1 entry_field_good(1) dest: entry_field_good(2))
qed

lemma good_LockedTransaction_field [simp]: "good_fields LockedTransaction_field"
  by (auto simp: good_fields_def LockedTransaction_field_def bind_result_Ok_iff entry_loop_returns
      split: if_splits intro!: returns_bind dest: read_span_progress)

text \<open>The entry loop over the two fields of an encoded entry.\<close>

lemma entry_loop_field:
  assumes "tag \<in> {0xA, 0x12 :: 64 word}" and "length (pre @ bytes_always (ucast tag) x @ post) < 2 ^ 63"
    and "length (pre @ bytes_always (ucast tag) x) \<le> p"
  shows "entry_loop (pre @ bytes_always (ucast tag) x @ post) p (length pre) k v =
     (if tag = 0xA
      then entry_loop (pre @ bytes_always (ucast tag) x @ post) p (length (pre @ bytes_always (ucast tag) x)) x v
      else entry_loop (pre @ bytes_always (ucast tag) x @ post) p (length (pre @ bytes_always (ucast tag) x)) k x)"
proof -
  let ?d = "pre @ bytes_always (ucast tag) x @ post"
  have "varint tag = [ucast tag]" using assms(1) by (subst varint.simps) auto
  then have w: "decodeVarint ?d (length pre) = Ok (tag, Suc (length pre))"
    using decodeVarint_varint [where 'a = 64, of pre tag "varint (word_of_nat (length x)) @ x @ post"]
    by (simp add: bytes_always_def)
  have "read_slice ?d (Suc (length pre)) = Ok (x, length (pre @ bytes_always (ucast tag) x))"
    using read_slice_at [of "pre @ [ucast tag]" x post] assms(2)
    by (simp add: bytes_always_def)
  with w assms(1) have "entry_field ?d p (length pre) k v =
      (if tag = 0xA then Ok (x, v, length (pre @ bytes_always (ucast tag) x))
       else Ok (k, x, length (pre @ bytes_always (ucast tag) x)))"
    by (auto simp: entry_field_def tag_field_def)
  moreover have "length pre < p" using assms(3) by (simp add: size_bytes_always_def)
  ultimately show ?thesis
    by (subst entry_loop.simps) (simp add: size_bytes_always_def)
qed

lemma entry_loop_payload:
  assumes "length (pre @ entry_payload (k, v) @ post) < 2 ^ 63"
  shows "entry_loop (pre @ entry_payload (k, v) @ post) (length (pre @ entry_payload (k, v))) (length pre) [] [] =
     Ok (k, v)"
proof -
  let ?p = "length (pre @ entry_payload (k, v))"
  have "entry_loop (pre @ entry_payload (k, v) @ post) ?p (length pre) [] [] =
      entry_loop (pre @ entry_payload (k, v) @ post) ?p (length (pre @ bytes_always 0xA k)) k []"
    using entry_loop_field [of "0xA" pre k "bytes_always 0x12 v @ post" ?p "[]" "[]"] assms by simp
  also have "\<dots> = entry_loop (pre @ entry_payload (k, v) @ post) ?p ?p k v"
    using entry_loop_field [of "0x12" "pre @ bytes_always 0xA k" v post ?p k "[]"] assms by simp
  also have "\<dots> = Ok (k, v)" by (subst entry_loop.simps) simp
  finally show ?thesis .
qed

lemma consumes_entry:
  "consumes (fields_loop nm LockedTransaction_field unk)
     (\<lambda>m. m\<lparr>lt_Versions := (lt_Versions m)(fst kv \<mapsto> snd kv)\<rparr>) (entry_bytes kv)"
proof -
  let ?n = "word_of_nat (length (entry_payload kv)) :: 64 word"
  have "consumes (fields_loop nm LockedTransaction_field unk)
     (\<lambda>m. m\<lparr>lt_Versions := (lt_Versions m)(fst kv \<mapsto> snd kv)\<rparr>)
     (ucast (0xA :: 64 word) # varint ?n @ entry_payload kv)"
  proof (rule consumes_field)
    fix m and pre post :: bytes
    assume len: "length (pre @ (varint ?n @ entry_payload kv) @ post) < 2 ^ 63"
    have "read_span (pre @ varint ?n @ entry_payload kv @ post) (length pre) =
        Ok (length (pre @ varint ?n), length (pre @ varint ?n @ entry_payload kv))"
      using len by (intro read_span_at) simp
    moreover have "entry_loop (pre @ varint ?n @ entry_payload kv @ post)
        (length (pre @ varint ?n @ entry_payload kv)) (length (pre @ varint ?n)) [] [] = Ok kv"
      using entry_loop_payload [of "pre @ varint ?n" "fst kv" "snd kv" post] len by simp
    ultimately show "LockedTransaction_field m (tag_field 0xA) (tag_type 0xA)
        (pre @ (varint ?n @ entry_payload kv) @ post) (length pre) =
      Some (Ok (m\<lparr>lt_Versions := (lt_Versions m)(fst kv \<mapsto> snd kv)\<rparr>,
        length (pre @ varint ?n @ entry_payload kv)))"
      by (simp add: LockedTransaction_field_def tag_field_def tag_type_def split: prod.splits)
  qed (simp_all add: tag_field_def tag_type_def)
  then show ?thesis by (simp add: entry_bytes_def bytes_always_def)
qed

lemma consumes_entries:
  "consumes (fields_loop nm LockedTransaction_field unk)
     (\<lambda>m. m\<lparr>lt_Versions := lt_Versions m ++ map_of (rev kvs)\<rparr>) (concat (map entry_bytes kvs))"
proof (induction kvs)
  case Nil
  then show ?case by (simp add: map_add_def)
next
  case (Cons kv kvs)
  have "(\<lambda>m :: LockedTransaction. m\<lparr>lt_Versions := lt_Versions m ++ map_of (rev (kv # kvs))\<rparr>) =
      (\<lambda>m. (m\<lparr>lt_Versions := (lt_Versions m)(fst kv \<mapsto> snd kv)\<rparr>)
        \<lparr>lt_Versions := lt_Versions (m\<lparr>lt_Versions := (lt_Versions m)(fst kv \<mapsto> snd kv)\<rparr>) ++
          map_of (rev kvs)\<rparr>)"
    by (rule ext) (cases kv, simp)
  then show ?case
    using consumes_append [OF consumes_entry [of nm unk kv] Cons.IH]
    by (simp only: list.map concat.simps)
qed

lemma LockedTransaction_UnmarshalVT_bytes:
  assumes "lt_unknownFields m = []" and "map_of order = lt_Versions m"
    and "length (LockedTransaction_bytes order m) < 2 ^ 63"
  shows "LockedTransaction_UnmarshalVT LockedTransaction_empty (LockedTransaction_bytes order m) = Ok m"
  using consumes_all [OF consumes_entries [of _ _ "rev order"], of _ _ LockedTransaction_empty] assms
  by (cases m) (simp add: LockedTransaction_UnmarshalVT_def LockedTransaction_bytes_def
      LockedTransaction_empty_def)

end
