(* ===== verification/Codec.thy ===== *)
theory Codec
  imports Messages_Stream
begin

text \<open>
  \<^verbatim>\<open>command/grpc_codec.go\<close>: the codec that client and server register with gRPC. It sends every message that
  has the generated \<open>MarshalVT\<close>/\<open>UnmarshalVT\<close> methods through them, any other protobuf message through
  the protobuf runtime, and refuses anything else.

  A Go value of type \<^verbatim>\<open>any\<close> is the datatype \<open>any\<close>: one constructor for each message type of
  \<^verbatim>\<open>proto/cp.proto\<close>, \<open>AProto\<close> for the other protobuf messages (the program sends \<open>emptypb.Empty\<close>) and \<open>AOther\<close>
  for the rest, with the name that \<^verbatim>\<open>%T\<close> prints. The protobuf runtime is the argument \<open>R\<close>; \<open>order\<close> is the order in
  which \<^verbatim>\<open>range\<close> visits the map of a \<open>LockedTransaction\<close>.
\<close>

datatype 'p any =
    AServerStatus ServerStatus
  | AClipboard Clipboard
  | ALockedTransaction LockedTransaction
  | APasteOption PasteOption
  | APastStream_Info PastStream_Info
  | APastStream_Error PastStream_Error
  | APastStream PastStream
  | ACopyStream_Info CopyStream_Info
  | ACopyStream CopyStream
  | AProto 'p
  | AOther string

record 'p runtime =
  rt_Marshal :: "'p \<Rightarrow> goerr + bytes"
  rt_Unmarshal :: "bytes \<Rightarrow> 'p \<Rightarrow> goerr + 'p"

type_synonym map_order = "LockedTransaction \<Rightarrow> (bytes \<times> bytes) list"

fun codec_Marshal :: "'p runtime \<Rightarrow> map_order \<Rightarrow> 'p any \<Rightarrow> bytes result" where
  "codec_Marshal R order (AServerStatus m) = ServerStatus_MarshalVT m"
| "codec_Marshal R order (AClipboard m) = Clipboard_MarshalVT m"
| "codec_Marshal R order (ALockedTransaction m) = LockedTransaction_MarshalVT (order m) m"
| "codec_Marshal R order (APasteOption m) = PasteOption_MarshalVT m"
| "codec_Marshal R order (APastStream_Info m) = PastStream_Info_MarshalVT m"
| "codec_Marshal R order (APastStream_Error m) = PastStream_Error_MarshalVT m"
| "codec_Marshal R order (APastStream m) = PastStream_MarshalVT m"
| "codec_Marshal R order (ACopyStream_Info m) = CopyStream_Info_MarshalVT m"
| "codec_Marshal R order (ACopyStream m) = CopyStream_MarshalVT m"
| "codec_Marshal R order (AProto p) = lift_sum (rt_Marshal R p)"
| "codec_Marshal R order (AOther t) =
     Err (Errorf (str (''failed to marshal, message is '' @ t @ '', want proto.Message'')))"

fun map_result :: "('a \<Rightarrow> 'b) \<Rightarrow> 'a result \<Rightarrow> 'b result" where
  "map_result f r = bind_result r (\<lambda>x. Ok (f x))"

text \<open>\<open>Unmarshal\<close> fills the value it is given; the outcome is that value after the call.\<close>

fun codec_Unmarshal :: "'p runtime \<Rightarrow> bytes \<Rightarrow> 'p any \<Rightarrow> 'p any result" where
  "codec_Unmarshal R d (AServerStatus m) = map_result AServerStatus (ServerStatus_UnmarshalVT m d)"
| "codec_Unmarshal R d (AClipboard m) = map_result AClipboard (Clipboard_UnmarshalVT m d)"
| "codec_Unmarshal R d (ALockedTransaction m) =
     map_result ALockedTransaction (LockedTransaction_UnmarshalVT m d)"
| "codec_Unmarshal R d (APasteOption m) = map_result APasteOption (PasteOption_UnmarshalVT m d)"
| "codec_Unmarshal R d (APastStream_Info m) =
     map_result APastStream_Info (PastStream_Info_UnmarshalVT m d)"
| "codec_Unmarshal R d (APastStream_Error m) =
     map_result APastStream_Error (PastStream_Error_UnmarshalVT m d)"
| "codec_Unmarshal R d (APastStream m) = map_result APastStream (PastStream_UnmarshalVT m d)"
| "codec_Unmarshal R d (ACopyStream_Info m) =
     map_result ACopyStream_Info (CopyStream_Info_UnmarshalVT m d)"
| "codec_Unmarshal R d (ACopyStream m) = map_result ACopyStream (CopyStream_UnmarshalVT m d)"
| "codec_Unmarshal R d (AProto p) = map_result AProto (lift_sum (rt_Unmarshal R d p))"
| "codec_Unmarshal R d (AOther t) =
     Err (Errorf (str (''failed to unmarshal, message is '' @ t @ '', want proto.Message'')))"

definition codec_Name :: bytes where
  "codec_Name = str ''proto''"

text \<open>The value that gRPC unmarshals into: a new message of the same type.\<close>

fun zero_value :: "'p any \<Rightarrow> 'p any" where
  "zero_value (AServerStatus m) = AServerStatus ServerStatus_empty"
| "zero_value (AClipboard m) = AClipboard Clipboard_empty"
| "zero_value (ALockedTransaction m) = ALockedTransaction LockedTransaction_empty"
| "zero_value (APasteOption m) = APasteOption PasteOption_empty"
| "zero_value (APastStream_Info m) = APastStream_Info PastStream_Info_empty"
| "zero_value (APastStream_Error m) = APastStream_Error PastStream_Error_empty"
| "zero_value (APastStream m) = APastStream PastStream_empty"
| "zero_value (ACopyStream_Info m) = ACopyStream_Info CopyStream_Info_empty"
| "zero_value (ACopyStream m) = ACopyStream CopyStream_empty"
| "zero_value (AProto p) = AProto p"
| "zero_value (AOther t) = AOther t"

text \<open>
  A message the program builds itself: one of the generated types, no unknown fields, and a oneof that
  is set.
\<close>

definition PastStream_built :: "PastStream \<Rightarrow> bool" where
  "PastStream_built m \<longleftrightarrow> ps_unknownFields m = [] \<and>
     (case ps_Data m of Some v \<Rightarrow> PastStream_data_known v | None \<Rightarrow> False)"

definition CopyStream_built :: "CopyStream \<Rightarrow> bool" where
  "CopyStream_built m \<longleftrightarrow> cs_unknownFields m = [] \<and>
     (case cs_Data m of Some v \<Rightarrow> CopyStream_data_known v | None \<Rightarrow> False)"

fun built :: "map_order \<Rightarrow> 'p any \<Rightarrow> bool" where
  "built order (AServerStatus m) \<longleftrightarrow> ss_unknownFields m = []"
| "built order (AClipboard m) \<longleftrightarrow> cb_unknownFields m = []"
| "built order (ALockedTransaction m) \<longleftrightarrow>
     lt_unknownFields m = [] \<and> map_of (order m) = lt_Versions m"
| "built order (APasteOption m) \<longleftrightarrow> po_unknownFields m = []"
| "built order (APastStream_Info m) \<longleftrightarrow> pi_unknownFields m = []"
| "built order (APastStream_Error m) \<longleftrightarrow> pe_unknownFields m = []"
| "built order (APastStream m) \<longleftrightarrow> PastStream_built m"
| "built order (ACopyStream_Info m) \<longleftrightarrow> ci_unknownFields m = []"
| "built order (ACopyStream m) \<longleftrightarrow> CopyStream_built m"
| "built order (AProto p) \<longleftrightarrow> False"
| "built order (AOther t) \<longleftrightarrow> False"

lemma PastStream_UnmarshalVT_built:
  assumes "PastStream_built m" and "length (PastStream_bytes m) < 2 ^ 63"
  shows "PastStream_UnmarshalVT PastStream_empty (PastStream_bytes m) = Ok m"
  using assms
  by (cases m) (auto simp: PastStream_built_def split: option.splits intro!: PastStream_UnmarshalVT_bytes)

lemma CopyStream_UnmarshalVT_built:
  assumes "CopyStream_built m" and "length (CopyStream_bytes m) < 2 ^ 63"
  shows "CopyStream_UnmarshalVT CopyStream_empty (CopyStream_bytes m) = Ok m"
  using assms
  by (cases m) (auto simp: CopyStream_built_def split: option.splits intro!: CopyStream_UnmarshalVT_bytes)

lemmas MarshalVT_eqs = ServerStatus_MarshalVT_eq Clipboard_MarshalVT_eq LockedTransaction_MarshalVT_eq
  PasteOption_MarshalVT_eq PastStream_Info_MarshalVT_eq PastStream_Error_MarshalVT_eq
  PastStream_MarshalVT_eq CopyStream_Info_MarshalVT_eq CopyStream_MarshalVT_eq

lemmas UnmarshalVT_reads = ServerStatus_UnmarshalVT_bytes Clipboard_UnmarshalVT_bytes
  LockedTransaction_UnmarshalVT_bytes PasteOption_UnmarshalVT_bytes PastStream_Info_UnmarshalVT_bytes
  PastStream_Error_UnmarshalVT_bytes PastStream_UnmarshalVT_built CopyStream_Info_UnmarshalVT_bytes
  CopyStream_UnmarshalVT_built

lemmas UnmarshalVT_defs = ServerStatus_UnmarshalVT_def Clipboard_UnmarshalVT_def
  LockedTransaction_UnmarshalVT_def PasteOption_UnmarshalVT_def PastStream_Info_UnmarshalVT_def
  PastStream_Error_UnmarshalVT_def PastStream_UnmarshalVT_def CopyStream_Info_UnmarshalVT_def
  CopyStream_UnmarshalVT_def

lemma returns_map_result: "returns r \<Longrightarrow> returns (map_result f r)"
  by (cases r) auto

fun vt_SizeVT :: "map_order \<Rightarrow> 'p any \<Rightarrow> nat option" where
  "vt_SizeVT order (AServerStatus m) = Some (ServerStatus_SizeVT m)"
| "vt_SizeVT order (AClipboard m) = Some (Clipboard_SizeVT m)"
| "vt_SizeVT order (ALockedTransaction m) = Some (LockedTransaction_SizeVT (order m) m)"
| "vt_SizeVT order (APasteOption m) = Some (PasteOption_SizeVT m)"
| "vt_SizeVT order (APastStream_Info m) = Some (PastStream_Info_SizeVT m)"
| "vt_SizeVT order (APastStream_Error m) = Some (PastStream_Error_SizeVT m)"
| "vt_SizeVT order (APastStream m) = Some (PastStream_SizeVT m)"
| "vt_SizeVT order (ACopyStream_Info m) = Some (CopyStream_Info_SizeVT m)"
| "vt_SizeVT order (ACopyStream m) = Some (CopyStream_SizeVT m)"
| "vt_SizeVT order _ = None"

lemmas length_M_bytes = length_ServerStatus_bytes length_Clipboard_bytes length_LockedTransaction_bytes
  length_PasteOption_bytes length_PastStream_Info_bytes length_PastStream_Error_bytes
  length_PastStream_bytes length_CopyStream_Info_bytes length_CopyStream_bytes

text \<open>
  C7: The codec loses nothing. Marshalling any message the program builds succeeds, without an index out
  of range in the backward writer, and unmarshalling the frame into a new message of its type gives
  the message back (for frames below Go's limit of \<open>2^63\<close> bytes on a slice).
\<close>

theorem codec_roundtrip:
  assumes "built order v"
  shows "\<exists>d. codec_Marshal R order v = Ok d \<and>
    (length d < 2 ^ 63 \<longrightarrow> codec_Unmarshal R d (zero_value v) = Ok v)"
  using assms by (cases v) (auto simp: MarshalVT_eqs UnmarshalVT_reads)

theorem codec_roundtrip_witness:
  "let R = \<lparr>rt_Marshal = (\<lambda>u. Inr []), rt_Unmarshal = (\<lambda>d u. Inr ())\<rparr>;
       v = APastStream \<lparr>ps_Data = Some (PS_Chunk [7, 8, 9]), ps_unknownFields = []\<rparr>
   in \<exists>d. codec_Marshal R (\<lambda>m. []) v = Ok d \<and>
      (length d < 2 ^ 63 \<longrightarrow> codec_Unmarshal R d (APastStream PastStream_empty) = Ok v)"
  using codec_roundtrip [of "\<lambda>m. []" "APastStream \<lparr>ps_Data = Some (PS_Chunk [7, 8, 9]), ps_unknownFields = []\<rparr>"
      "\<lparr>rt_Marshal = (\<lambda>u. Inr []), rt_Unmarshal = (\<lambda>d u. Inr ())\<rparr>"]
  by (simp add: PastStream_built_def)


text \<open>
  C20: The size a message computes before it is encoded is the exact length of its frame, which is what
  makes the backward writer end at index 0.
\<close>

theorem codec_size_exact:
  assumes "vt_SizeVT order v = Some n"
  shows "\<exists>d. codec_Marshal R order v = Ok d \<and> length d = n"
  using assms by (cases v) (auto simp: MarshalVT_eqs length_M_bytes)

theorem codec_size_exact_witness:
  "let R = \<lparr>rt_Marshal = (\<lambda>u. Inr []), rt_Unmarshal = (\<lambda>d u. Inr ())\<rparr>;
       v = APasteOption \<lparr>po_TransferRate = 300, po_unknownFields = []\<rparr>
   in \<exists>d. codec_Marshal R (\<lambda>m. []) v = Ok d \<and> length d = 3"
proof -
  have "vt_SizeVT (\<lambda>m. []) (APasteOption \<lparr>po_TransferRate = 300, po_unknownFields = []\<rparr> :: unit any) = Some 3"
    by code_simp
  from codec_size_exact [OF this, of "\<lparr>rt_Marshal = (\<lambda>u. Inr []), rt_Unmarshal = (\<lambda>d u. Inr ())\<rparr>"]
  show ?thesis by simp
qed

text \<open>
  C21: Varints: what \<open>encodeVarint\<close> writes into a buffer of \<open>sov v\<close> bytes, the decoder reads back as the
  same 64-bit value, and the index stands behind the last byte.
\<close>

theorem varint_roundtrip:
  "\<exists>d. encodeVarint v (replicate (sov v) 0, sov v) = Ok (d, 0) \<and> decodeVarint d 0 = Ok (v, sov v)"
proof -
  have "encodeVarint v (replicate (sov v) 0, sov v) = Ok (varint v, 0)"
    using emits_encodeVarint [of v, unfolded emits_def, rule_format, of "sov v" "replicate (sov v) 0"]
    by (simp add: length_varint del: encodeVarint.simps)
  moreover have "decodeVarint (varint v) 0 = Ok (v, sov v)"
    using decodeVarint_varint [where 'a = 64 and pre = "[]" and post = "[]" and v = v]
    by (simp add: length_varint)
  ultimately show ?thesis by blast
qed

end
