(* ===== verification/Streams.thy ===== *)
theory Streams
  imports Codec
begin

text \<open>
  The two ends of a gRPC stream as the program sees them. gRPC is a library outside the repository, and what it does is an
  argument of the model: an inbox is the sequence of messages that \<open>Recv\<close> will deliver with the error that ends it (\<open>io.EOF\<close>
  when the peer finished), an outbox records the messages \<open>Send\<close> accepted and holds the outcomes of the sends to come (all
  of them succeed once the list is used up). Every sequence of outcomes is covered, since results quantify over both.
\<close>

record 'm inbox =
  in_msgs :: "'m list"
  in_end :: goerr

fun stream_Recv :: "'m inbox \<Rightarrow> (goerr + 'm) \<times> 'm inbox" where
  "stream_Recv s =
     (case in_msgs s of
        [] \<Rightarrow> (Inl (in_end s), s)
      | m # ms \<Rightarrow> (Inr m, s\<lparr>in_msgs := ms\<rparr>))"

record 'm outbox =
  out_sent :: "'m list"
  out_errs :: "goerr option list"

fun stream_Send :: "'m outbox \<Rightarrow> 'm \<Rightarrow> goerr option \<times> 'm outbox" where
  "stream_Send s m =
     (case out_errs s of
        [] \<Rightarrow> (None, s\<lparr>out_sent := out_sent s @ [m]\<rparr>)
      | None # es \<Rightarrow> (None, s\<lparr>out_sent := out_sent s @ [m], out_errs := es\<rparr>)
      | Some e # es \<Rightarrow> (Some e, s\<lparr>out_errs := es\<rparr>))"

definition open_outbox :: "'m outbox" where
  "open_outbox = \<lparr>out_sent = [], out_errs = []\<rparr>"

definition outbox_reliable :: "'m outbox \<Rightarrow> bool" where
  "outbox_reliable s \<longleftrightarrow> list_all (\<lambda>e. e = None) (out_errs s)"

lemma outbox_reliable_open [simp]: "outbox_reliable open_outbox"
  by (simp add: outbox_reliable_def open_outbox_def)

lemma out_sent_open [simp]: "out_sent open_outbox = []"
  by (simp add: open_outbox_def)

lemma stream_Send_ok: "stream_Send s m = (None, s') \<Longrightarrow> out_sent s' = out_sent s @ [m]"
  by (auto split: list.splits option.splits)

lemma stream_Send_err: "stream_Send s m = (Some e, s') \<Longrightarrow> out_sent s' = out_sent s"
  by (auto split: list.splits option.splits)

lemma stream_Send_reliable: "outbox_reliable s \<Longrightarrow> stream_Send s m = (x, s') \<Longrightarrow> x = None \<and> outbox_reliable s'"
  by (auto simp: outbox_reliable_def split: list.splits option.splits)

declare stream_Send.simps [simp del]

subsection \<open>The wire between client and server\<close>

text \<open>
  Each message is marshalled by the codec at one end and unmarshalled into a new message at the other. gRPC refuses a message that is
  longer than the limit of the receiver; the receiver then sees the messages before it and an error.
\<close>

definition err_too_large :: goerr where
  "err_too_large = StatusError (OtherCode 8) (str ''grpc: received message larger than max'')"

definition wire_copy :: "int \<Rightarrow> CopyStream \<Rightarrow> CopyStream result" where
  "wire_copy limit m =
     bind_result (CopyStream_MarshalVT m) (\<lambda>d.
       if limit < int (length d) then Err err_too_large else CopyStream_UnmarshalVT CopyStream_empty d)"

definition wire_paste :: "int \<Rightarrow> PastStream \<Rightarrow> PastStream result" where
  "wire_paste limit m =
     bind_result (PastStream_MarshalVT m) (\<lambda>d.
       if limit < int (length d) then Err err_too_large else PastStream_UnmarshalVT PastStream_empty d)"

fun deliver :: "('m \<Rightarrow> 'm result) \<Rightarrow> 'm list \<Rightarrow> 'm list \<times> goerr option" where
  "deliver wire [] = ([], None)"
| "deliver wire (m # ms) =
     (case wire m of
        Ok m' \<Rightarrow> (let (ds, e) = deliver wire ms in (m' # ds, e))
      | Err e \<Rightarrow> ([], Some e)
      | _ \<Rightarrow> ([], Some (External [])))"

text \<open>The stream the receiver sees when the sender ended it with \<open>fin\<close>.\<close>

definition received :: "('m \<Rightarrow> 'm result) \<Rightarrow> 'm list \<Rightarrow> goerr \<Rightarrow> 'm inbox" where
  "received wire ms fin = (let (ds, e) = deliver wire ms in \<lparr>in_msgs = ds, in_end = (case e of None \<Rightarrow> fin | Some x \<Rightarrow> x)\<rparr>)"

lemma wire_copy_built:
  assumes "CopyStream_built m" and "limit < 2 ^ 63"
  shows "wire_copy limit m = (if limit < int (CopyStream_SizeVT m) then Err err_too_large else Ok m)"
  using assms by (auto simp: wire_copy_def CopyStream_MarshalVT_eq CopyStream_UnmarshalVT_built length_CopyStream_bytes)

lemma wire_paste_built:
  assumes "PastStream_built m" and "limit < 2 ^ 63"
  shows "wire_paste limit m = (if limit < int (PastStream_SizeVT m) then Err err_too_large else Ok m)"
  using assms by (auto simp: wire_paste_def PastStream_MarshalVT_eq PastStream_UnmarshalVT_built length_PastStream_bytes)

lemma deliver_all: "(\<And>m. m \<in> set ms \<Longrightarrow> wire m = Ok m) \<Longrightarrow> deliver wire ms = (ms, None)"
  by (induction ms) auto

lemma deliver_prefix:
  assumes "\<And>m m'. m \<in> set ms \<Longrightarrow> wire m = Ok m' \<Longrightarrow> m' = m" and "deliver wire ms = (ds, e)"
  shows "prefix ds ms \<and> (e = None \<longrightarrow> ds = ms)"
  using assms
proof (induction ms arbitrary: ds)
  case (Cons m ms)
  then show ?case by (cases "wire m") (auto split: prod.splits)
qed simp

text \<open>The sizes of the messages of a paste: a chunk takes at most eleven bytes more than its data.\<close>

lemma past_sizes:
  "PastStream_SizeVT \<lparr>ps_Data = Some (PS_Chunk p), ps_unknownFields = []\<rparr> \<le> length p + 11"
  "PastStream_SizeVT \<lparr>ps_Data = Some (PS_Checksum p), ps_unknownFields = []\<rparr> \<le> length p + 11"
  "PastStream_SizeVT \<lparr>ps_Data = Some (PS_Info v), ps_unknownFields = []\<rparr> \<le>
     48 + length (pi_MasterKeyNonce v) + length (pi_KeyNonce v) + length (pi_Iv v) + length (pi_unknownFields v)"
  using sov_le [of "word_of_nat (length p)"] sov_le [of "word_of_nat (PastStream_Info_SizeVT v)"] size_field_le(3) [of "pi_Checksum v"]
    size_field_le(3) [of "pi_Compressed v"] size_field_le(2) [of "pi_MasterKeyNonce v"] size_field_le(2) [of "pi_KeyNonce v"]
    size_field_le(2) [of "pi_Iv v"]
  by (simp_all add: PastStream_SizeVT_def size_bytes_always_def PastStream_Info_SizeVT_def Let_def)

end
