(* ===== verification/Grpc_Reader.thy ===== *)
theory Grpc_Reader
  imports Prelude
begin

text \<open>
  \<^verbatim>\<open>internal/grpc/reader.go\<close>: an \<open>io.Reader\<close> over the chunks of a \<open>Receiver\<close>. \<open>Read\<close> fills the whole slice
  it is given, across chunk boundaries, except at the end of the stream.

  The \<open>Receiver\<close> interface is the locale \<open>chunk_receiver\<close>: a receiver yields its pending chunks one by
  one and then its final error, and \<open>Checksum\<close> is valid from that moment on. The locale \<open>stream_reader\<close> is
  the interface \<open>storage.StreamReader\<close>, the contract that \<open>Reader\<close> offers to its callers; the lemmas of
  \<open>chunk_receiver\<close> prove it for the reader over any receiver.
\<close>

type_synonym 'r recv = "'r \<Rightarrow> (goerr + bytes) \<times> 'r"

text \<open>
  \<^verbatim>\<open>io.Reader.Read(p)\<close>: the returned count and error, the new contents of \<open>p\<close>, the new state.
\<close>

type_synonym 'r io_read = "'r \<Rightarrow> bytes \<Rightarrow> (nat \<times> goerr option) result \<times> bytes \<times> 'r"

record 'r Reader =
  r_r :: 'r
  r_t :: bytes
  r_tLen :: nat
  r_tIndex :: nat
  r_pIndex :: nat

definition NewReader :: "'r \<Rightarrow> 'r Reader" where
  "NewReader recv = \<lparr>r_r = recv, r_t = [], r_tLen = 0, r_tIndex = 0, r_pIndex = 0\<rparr>"

definition Reader_Checksum :: "('r \<Rightarrow> bytes) \<Rightarrow> 'r Reader \<Rightarrow> bytes" where
  "Reader_Checksum Checksum r = Checksum (r_r r)"

text \<open>The copy at the head of the loop, when a chunk is left over, and the position after it.\<close>

definition read_copy :: "bytes \<Rightarrow> 'r Reader \<Rightarrow> nat \<times> bytes \<times> 'r Reader" where
  "read_copy p r =
     (if r_tLen r > 0 then
        (let (p', n) = go_copy p (r_pIndex r) (drop (r_tIndex r) (r_t r))
         in (n + r_pIndex r, p', r\<lparr>r_tIndex := r_tIndex r + n, r_tLen := r_tLen r - n\<rparr>))
      else (r_pIndex r, p, r))"

partial_function (option) read_loop ::
  "'r recv \<Rightarrow> bytes \<Rightarrow> 'r Reader \<Rightarrow> ((nat \<times> goerr option) result \<times> bytes \<times> 'r Reader) option" where
  "read_loop Next p r =
     (let (k, p1, r1) = read_copy p r
      in if r_tLen r > 0 \<and> k = length p then Some (Ok (k, None), p1, r1)
         else (case Next (r_r r1) of
             (Inl e, s) \<Rightarrow>
               (let r2 = r1\<lparr>r_pIndex := k, r_r := s\<rparr>
                in if e = EOF then Some (Ok (r_pIndex r2, Some EOF), p1, r2)
                   else Some (Ok (0, Some e), p1, r2))
           | (Inr x, s) \<Rightarrow>
               read_loop Next p1
                 (r1\<lparr>r_pIndex := k, r_r := s, r_t := x, r_tIndex := 0, r_tLen := length x\<rparr>)))"

declare read_loop.simps [code]

definition Reader_Read :: "'r recv \<Rightarrow> 'r Reader io_read" where
  "Reader_Read Next r p =
     (case read_loop Next p (r\<lparr>r_pIndex := 0\<rparr>) of Some x \<Rightarrow> x | None \<Rightarrow> (Loop, p, r))"

definition reader_inv :: "'r Reader \<Rightarrow> bool" where
  "reader_inv r \<longleftrightarrow> r_tIndex r + r_tLen r = length (r_t r)"

lemma NewReader_inv [simp]: "reader_inv (NewReader recv)"
  by (simp add: reader_inv_def NewReader_def)

text \<open>
  The copy moves bytes from the chunk to the front of \<open>p\<close>; it stops when one of the two is used up.
\<close>

lemma read_copy_spec:
  assumes "reader_inv r" and "r_pIndex r < length p" and "read_copy p r = (k, p1, r1)"
  shows "reader_inv r1" and "length p1 = length p" and "k \<le> length p" and "r_r r1 = r_r r"
    and "take k p1 @ drop (r_tIndex r1) (r_t r1) = take (r_pIndex r) p @ drop (r_tIndex r) (r_t r)"
    and "k < length p \<Longrightarrow> drop (r_tIndex r1) (r_t r1) = []"
    and "k = length p \<longleftrightarrow> length p \<le> r_pIndex r + r_tLen r"
    and "drop k p1 = drop k p"
proof -
  let ?c = "drop (r_tIndex r) (r_t r)"
  have c: "length ?c = r_tLen r" using assms(1) by (auto simp: reader_inv_def)
  have "reader_inv r1 \<and> length p1 = length p \<and> k \<le> length p \<and> r_r r1 = r_r r \<and>
      take k p1 @ drop (r_tIndex r1) (r_t r1) = take (r_pIndex r) p @ ?c \<and>
      (k < length p \<longrightarrow> drop (r_tIndex r1) (r_t r1) = []) \<and>
      (k = length p \<longleftrightarrow> length p \<le> r_pIndex r + r_tLen r) \<and> drop k p1 = drop k p"
  proof (cases "r_tLen r > 0")
    case False
    with assms c show ?thesis by (auto simp: read_copy_def)
  next
    case True
    define n where "n = min (length p - r_pIndex r) (r_tLen r)"
    have n: "n \<le> r_tLen r" "r_pIndex r + n \<le> length p" using assms(2) by (auto simp: n_def)
    obtain q where g: "go_copy p (r_pIndex r) ?c = (q, n)"
      using c by (simp add: go_copy_def Let_def n_def)
    have q: "length q = length p" "take (r_pIndex r + n) q = take (r_pIndex r) p @ take n ?c"
      "drop (r_pIndex r + n) q = drop (r_pIndex r + n) p"
      using length_go_copy [of "r_pIndex r" p ?c] take_go_copy [of "r_pIndex r" p n ?c]
        drop_go_copy [of "r_pIndex r" p n ?c] g assms(2) by auto
    have k: "k = n + r_pIndex r" "p1 = q" "r1 = r\<lparr>r_tIndex := r_tIndex r + n, r_tLen := r_tLen r - n\<rparr>"
      using assms(3) True g by (auto simp: read_copy_def)
    have "take n ?c @ drop (r_tIndex r + n) (r_t r) = ?c"
      by (metis add.commute append_take_drop_id drop_drop)
    with q k n c assms(1,2) show ?thesis
      by (auto simp: reader_inv_def n_def add.commute)
  qed
  then show "reader_inv r1" "length p1 = length p" "k \<le> length p" "r_r r1 = r_r r"
    "take k p1 @ drop (r_tIndex r1) (r_t r1) = take (r_pIndex r) p @ ?c"
    "k < length p \<Longrightarrow> drop (r_tIndex r1) (r_t r1) = []"
    "k = length p \<longleftrightarrow> length p \<le> r_pIndex r + r_tLen r" "drop k p1 = drop k p" by auto
qed

subsection \<open>The contract of a stream reader\<close>

text \<open>
  \<open>dat\<close> is what is still to be read and \<open>fin\<close> the error that ends the stream: a read with a non-empty slice
  fills it from \<open>dat\<close>, or delivers all of \<open>dat\<close> with \<open>io.EOF\<close>, or, when the stream breaks, reports the
  error and no data.
\<close>

locale stream_reader =
  fixes Read :: "'r io_read"
    and Checksum :: "'r \<Rightarrow> bytes"
    and inv :: "'r \<Rightarrow> bool"
    and dat :: "'r \<Rightarrow> bytes"
    and fin :: "'r \<Rightarrow> goerr"
    and fin_sum :: "'r \<Rightarrow> bytes"
  assumes Read_full: "inv r \<Longrightarrow> 0 < length p \<Longrightarrow> length p \<le> length (dat r) \<Longrightarrow>
      \<exists>r'. Read r p = (Ok (length p, None), take (length p) (dat r), r') \<and> inv r' \<and>
        dat r' = drop (length p) (dat r) \<and> fin r' = fin r \<and> fin_sum r' = fin_sum r"
    and Read_eof: "inv r \<Longrightarrow> length (dat r) < length p \<Longrightarrow> fin r = EOF \<Longrightarrow>
      \<exists>r'. Read r p = (Ok (length (dat r), Some EOF), dat r @ drop (length (dat r)) p, r') \<and>
        Checksum r' = fin_sum r"
    and Read_broken: "inv r \<Longrightarrow> length (dat r) < length p \<Longrightarrow> fin r \<noteq> EOF \<Longrightarrow>
      \<exists>q r'. Read r p = (Ok (0, Some (fin r)), q, r')"

subsection \<open>The contract of a receiver, and the reader over it\<close>

locale chunk_receiver =
  fixes Next :: "'r recv"
    and Checksum :: "'r \<Rightarrow> bytes"
    and pend :: "'r \<Rightarrow> bytes list"
    and fin :: "'r \<Rightarrow> goerr"
    and fin_sum :: "'r \<Rightarrow> bytes"
  assumes Next_chunk: "pend s = c # cs \<Longrightarrow>
      \<exists>s'. Next s = (Inr c, s') \<and> pend s' = cs \<and> fin s' = fin s \<and> fin_sum s' = fin_sum s"
    and Next_end: "pend s = [] \<Longrightarrow> \<exists>s'. Next s = (Inl (fin s), s') \<and> Checksum s' = fin_sum s"
begin

definition rest :: "'r Reader \<Rightarrow> bytes" where
  "rest r = drop (r_tIndex r) (r_t r) @ concat (pend (r_r r))"

definition read_result ::
  "bytes \<Rightarrow> bytes \<Rightarrow> 'r Reader \<Rightarrow> (nat \<times> goerr option) result \<times> bytes \<times> 'r Reader \<Rightarrow> bool" where
  "read_result p W r x \<longleftrightarrow> (let (res, q, r') = x in
     if length p \<le> length W then
       res = Ok (length p, None) \<and> q = take (length p) W \<and> reader_inv r' \<and>
       rest r' = drop (length p) W \<and> fin (r_r r') = fin (r_r r) \<and> fin_sum (r_r r') = fin_sum (r_r r)
     else
       res = Ok (if fin (r_r r) = EOF then length W else 0, Some (fin (r_r r))) \<and>
       q = W @ drop (length W) p \<and> Checksum (r_r r') = fin_sum (r_r r))"

lemma read_result_change:
  assumes "read_result q W s x" and "length q = length p" and "drop (length W) q = drop (length W) p"
    and "fin (r_r s) = fin (r_r r)" and "fin_sum (r_r s) = fin_sum (r_r r)"
  shows "read_result p W r x"
  using assms by (cases x) (simp add: read_result_def split: if_splits)

lemma read_loop_spec:
  assumes "reader_inv r" and "r_pIndex r < length p"
  shows "\<exists>x. read_loop Next p r = Some x \<and> read_result p (take (r_pIndex r) p @ rest r) r x"
  using assms
proof (induction "length (pend (r_r r))" arbitrary: r p rule: less_induct)
  case less
  obtain k p1 r1 where cp: "read_copy p r = (k, p1, r1)" by (metis prod_cases3)
  note sp = read_copy_spec [OF less.prems cp]
  let ?W = "take (r_pIndex r) p @ rest r"
  have W: "?W = take k p1 @ drop (r_tIndex r1) (r_t r1) @ concat (pend (r_r r))"
    using sp(5) by (simp add: rest_def)
  show ?case
  proof (cases "k = length p")
    case True
    with sp(7) less.prems have "r_tLen r > 0" by auto
    with True cp have "read_loop Next p r = Some (Ok (length p, None), p1, r1)"
      by (subst read_loop.simps) simp
    moreover have "read_result p ?W r (Ok (length p, None), p1, r1)"
      unfolding W using True sp(1,2,4) by (simp add: read_result_def rest_def)
    ultimately show ?thesis by blast
  next
    case False
    with sp(3,6) have k: "k < length p" and used: "drop (r_tIndex r1) (r_t r1) = []" by auto
    have W': "?W = take k p1 @ concat (pend (r_r r))" and lk: "length (take k p1) = k"
      using W used k sp(2) by auto
    show ?thesis
    proof (cases "pend (r_r r)")
      case Nil
      then obtain s' where nx: "Next (r_r r1) = (Inl (fin (r_r r)), s')" "Checksum s' = fin_sum (r_r r)"
        using Next_end sp(4) by metis
      have "read_loop Next p r = Some (Ok (if fin (r_r r) = EOF then k else 0, Some (fin (r_r r))), p1,
          r1\<lparr>r_pIndex := k, r_r := s'\<rparr>)"
        using nx(1) cp False by (subst read_loop.simps) simp
      moreover have "p1 = take k p1 @ drop k p" using sp(8) by (metis append_take_drop_id)
      ultimately show ?thesis
        using Nil W' lk k nx(2) by (auto simp: read_result_def)
    next
      case (Cons c cs)
      then obtain s' where nx: "Next (r_r r1) = (Inr c, s')" "pend s' = cs" "fin s' = fin (r_r r)"
        "fin_sum s' = fin_sum (r_r r)"
        using Next_chunk sp(4) by metis
      let ?r = "r1\<lparr>r_pIndex := k, r_r := s', r_t := c, r_tIndex := 0, r_tLen := length c\<rparr>"
      have "read_loop Next p r = read_loop Next p1 ?r"
        using nx(1) cp False by (subst read_loop.simps) simp
      moreover have "\<exists>x. read_loop Next p1 ?r = Some x \<and> read_result p1 (take k p1 @ rest ?r) ?r x"
        using less.hyps [of ?r p1] Cons nx(2) k sp(2) by (simp add: reader_inv_def)
      moreover have "take k p1 @ rest ?r = ?W"
        using W' Cons nx(2) by (simp add: rest_def)
      ultimately obtain x where x: "read_loop Next p r = Some x" "read_result p1 ?W ?r x" by auto
      have "drop (length ?W) p1 = drop (length ?W) p"
        using sp(8) W' lk by (metis add.commute drop_drop length_append)
      with x nx(3,4) sp(2) show ?thesis
        by (intro exI [of _ x] conjI read_result_change [OF x(2)]) simp_all
    qed
  qed
qed

lemma Read_spec:
  assumes "reader_inv r" and "0 < length p"
  shows "read_result p (rest r) r (Reader_Read Next r p)"
  using read_loop_spec [of "r\<lparr>r_pIndex := 0\<rparr>" p] assms
  by (auto simp: Reader_Read_def reader_inv_def rest_def read_result_def)

sublocale reader: stream_reader "Reader_Read Next" "Reader_Checksum Checksum" reader_inv rest
  "\<lambda>r. fin (r_r r)" "\<lambda>r. fin_sum (r_r r)"
proof
  fix r :: "'r Reader" and p :: bytes
  assume r: "reader_inv r"
  show "0 < length p \<Longrightarrow> length p \<le> length (rest r) \<Longrightarrow>
      \<exists>r'. Reader_Read Next r p = (Ok (length p, None), take (length p) (rest r), r') \<and> reader_inv r' \<and>
        rest r' = drop (length p) (rest r) \<and> fin (r_r r') = fin (r_r r) \<and> fin_sum (r_r r') = fin_sum (r_r r)"
    using Read_spec [OF r, of p] by (cases "Reader_Read Next r p") (auto simp: read_result_def)
  assume short: "length (rest r) < length p"
  then have x: "read_result p (rest r) r (Reader_Read Next r p)" by (intro Read_spec [OF r]) auto
  show "fin (r_r r) = EOF \<Longrightarrow>
      \<exists>r'. Reader_Read Next r p = (Ok (length (rest r), Some EOF), rest r @ drop (length (rest r)) p, r') \<and>
        Reader_Checksum Checksum r' = fin_sum (r_r r)"
    using x short by (cases "Reader_Read Next r p") (auto simp: read_result_def Reader_Checksum_def)
  show "fin (r_r r) \<noteq> EOF \<Longrightarrow> \<exists>q r'. Reader_Read Next r p = (Ok (0, Some (fin (r_r r))), q, r')"
    using x short by (cases "Reader_Read Next r p") (auto simp: read_result_def)
qed

end

end
