(* ===== verification/Grpc_Writer.thy ===== *)
theory Grpc_Writer
  imports Prelude
begin

text \<open>
  \<^verbatim>\<open>internal/grpc/writer.go\<close>: a writer that cuts the bytes it is given into chunks of the size of its
  buffer and hands each full buffer to a \<open>Sender\<close>; \<open>Flush\<close> sends what is left and the checksum.

  The \<open>Sender\<close> interface is the locale \<open>chunk_sender\<close>: its laws say what a sender has delivered after each
  call. The lemmas of the locale are the contract of the writer: it preserves its invariant, \<open>Write\<close>
  returns, what was delivered plus what is buffered is what was written, and all chunks but the last one
  have the size of the buffer. The interpretations are in the theories of the two senders
  (\<^verbatim>\<open>Server\<close> and \<^verbatim>\<open>Client\<close>).

  An operation of a sender takes and returns the sender's state; \<open>None\<close> is a nil error.
\<close>

type_synonym 's send = "'s \<Rightarrow> bytes \<Rightarrow> goerr option \<times> 's"

record 's Writer =
  w_s :: 's
  w_t :: bytes
  w_tIndex :: nat
  w_pIndex :: nat
  w_tLen :: nat
  w_pLen :: nat

definition NewWriter :: "'s \<Rightarrow> bytes \<Rightarrow> 's Writer" where
  "NewWriter sender buf =
     \<lparr>w_s = sender, w_t = buf, w_tIndex = 0, w_pIndex = 0, w_tLen = length buf, w_pLen = 0\<rparr>"

text \<open>The loop of \<open>Write\<close>. \<open>None\<close> means that it does not return.\<close>

partial_function (option) write_loop ::
  "'s send \<Rightarrow> bytes \<Rightarrow> 's Writer \<Rightarrow> (nat result \<times> 's Writer) option" where
  "write_loop SendChunk p w =
     (if w_pLen w > 0 then
        (let (t, n) = go_copy (w_t w) (w_tIndex w) (drop (w_pIndex w) p);
             w1 = w\<lparr>w_t := t, w_tIndex := w_tIndex w + n, w_pIndex := w_pIndex w + n,
                    w_pLen := w_pLen w - n, w_tLen := w_tLen w - n\<rparr>
         in if w_tLen w1 = 0 then
              (case SendChunk (w_s w1) (w_t w1) of
                 (Some e, s) \<Rightarrow> Some (Err e, w1\<lparr>w_s := s\<rparr>)
               | (None, s) \<Rightarrow>
                   write_loop SendChunk p
                     (w1\<lparr>w_s := s, w_tIndex := 0, w_tLen := length (w_t w1)\<rparr>))
            else write_loop SendChunk p w1)
      else Some (Ok (w_pIndex w), w))"

declare write_loop.simps [code]

definition Writer_Write :: "'s send \<Rightarrow> 's Writer \<Rightarrow> bytes \<Rightarrow> nat result \<times> 's Writer" where
  "Writer_Write SendChunk w p =
     (case write_loop SendChunk p (w\<lparr>w_pIndex := 0, w_pLen := length p\<rparr>) of
        Some r \<Rightarrow> r | None \<Rightarrow> (Loop, w))"

definition Writer_Flush :: "'s send \<Rightarrow> 's send \<Rightarrow> 's Writer \<Rightarrow> bytes \<Rightarrow> unit result \<times> 's Writer" where
  "Writer_Flush SendChunk SendChecksum w checksum =
     (if w_tLen w > 0 then
        (case SendChunk (w_s w) (take (w_tIndex w) (w_t w)) of
           (Some e, s) \<Rightarrow> (Err e, w\<lparr>w_s := s\<rparr>)
         | (None, s) \<Rightarrow>
             (case SendChecksum s checksum of
                (Some e, s') \<Rightarrow> (Err e, w\<lparr>w_s := s'\<rparr>)
              | (None, s') \<Rightarrow> (Ok (), w\<lparr>w_s := s'\<rparr>)))
      else (case SendChecksum (w_s w) checksum of
              (Some e, s') \<Rightarrow> (Err e, w\<lparr>w_s := s'\<rparr>)
            | (None, s') \<Rightarrow> (Ok (), w\<lparr>w_s := s'\<rparr>)))"

text \<open>
  The invariant between calls: the buffer is not empty, never full, and \<open>tLen\<close> is the room left in it.
\<close>

definition writer_inv :: "'s Writer \<Rightarrow> bool" where
  "writer_inv w \<longleftrightarrow> w_tIndex w < length (w_t w) \<and> w_tLen w = length (w_t w) - w_tIndex w"

definition buffered :: "'s Writer \<Rightarrow> bytes" where
  "buffered w = take (w_tIndex w) (w_t w)"

text \<open>Within the loop: the unwritten rest of \<open>p\<close> is \<open>pLen\<close> bytes long.\<close>

definition loop_inv :: "bytes \<Rightarrow> 's Writer \<Rightarrow> bool" where
  "loop_inv p w \<longleftrightarrow> writer_inv w \<and> w_pIndex w + w_pLen w = length p"

lemma NewWriter_inv: "0 < length buf \<Longrightarrow> writer_inv (NewWriter s buf)"
  by (simp add: writer_inv_def NewWriter_def)

lemma buffered_NewWriter [simp]: "buffered (NewWriter s buf) = []"
  by (simp add: buffered_def NewWriter_def)

lemma buffered_short: "writer_inv w \<Longrightarrow> length (buffered w) < length (w_t w)"
  by (simp add: writer_inv_def buffered_def)

text \<open>
  One copy into the buffer: either the input fits and is buffered, or the buffer is filled.
\<close>

lemma write_loop_fits:
  assumes "loop_inv p w" and "0 < w_pLen w" and "w_pLen w < w_tLen w"
  shows "\<exists>w'. write_loop SendChunk p w = Some (Ok (length p), w') \<and> w_s w' = w_s w \<and>
           writer_inv w' \<and> length (w_t w') = length (w_t w) \<and>
           buffered w' = buffered w @ drop (w_pIndex w) p"
proof -
  define t where "t = fst (go_copy (w_t w) (w_tIndex w) (drop (w_pIndex w) p))"
  let ?w = "w\<lparr>w_t := t, w_tIndex := w_tIndex w + w_pLen w, w_pIndex := length p, w_pLen := 0,
              w_tLen := w_tLen w - w_pLen w\<rparr>"
  from assms have n: "length p - w_pIndex w = w_pLen w" "w_pIndex w + w_pLen w = length p"
    "w_tIndex w + w_pLen w < length (w_t w)" "min (length (w_t w) - w_tIndex w) (w_pLen w) = w_pLen w"
    "w_tLen w = length (w_t w) - w_tIndex w"
    by (auto simp: loop_inv_def writer_inv_def)
  have g: "go_copy (w_t w) (w_tIndex w) (drop (w_pIndex w) p) = (t, w_pLen w)"
    using n by (simp add: prod_eq_iff t_def)
  have "write_loop SendChunk p w = write_loop SendChunk p ?w"
    using assms(2,3) n(2) by (subst write_loop.simps) (simp add: g)
  also have "\<dots> = Some (Ok (length p), ?w)" by (subst write_loop.simps) simp
  finally have r: "write_loop SendChunk p w = Some (Ok (length p), ?w)" .
  have "buffered ?w = buffered w @ drop (w_pIndex w) p"
    using take_go_copy [of "w_tIndex w" "w_t w" "w_pLen w" "drop (w_pIndex w) p"] n
    by (simp add: buffered_def t_def)
  moreover have "length t = length (w_t w)" using n by (simp add: t_def)
  moreover have "writer_inv ?w" using assms n \<open>length t = length (w_t w)\<close> by (simp add: writer_inv_def)
  ultimately show ?thesis using r by auto
qed

text \<open>The loop after a full buffer was handed over.\<close>

definition after_chunk :: "'s Writer \<Rightarrow> 's \<Rightarrow> bytes \<Rightarrow> 's Writer" where
  "after_chunk w s t = w\<lparr>w_t := t, w_pIndex := w_pIndex w + w_tLen w,
     w_pLen := w_pLen w - w_tLen w, w_s := s, w_tIndex := 0, w_tLen := length t\<rparr>"

lemma write_loop_full:
  assumes "loop_inv p w" and "w_tLen w \<le> w_pLen w"
    and "t = buffered w @ take (w_tLen w) (drop (w_pIndex w) p)"
  shows "length t = length (w_t w)"
    and "SendChunk (w_s w) t = (None, s) \<Longrightarrow>
           write_loop SendChunk p w = write_loop SendChunk p (after_chunk w s t)"
    and "SendChunk (w_s w) t = (Some e, s) \<Longrightarrow>
           \<exists>w'. write_loop SendChunk p w = Some (Err e, w') \<and> w_s w' = s"
    and "loop_inv p (after_chunk w s t)"
proof -
  from assms(1,2) have n: "0 < w_pLen w" "length p - w_pIndex w = w_pLen w"
    "w_tLen w = length (w_t w) - w_tIndex w" "w_tIndex w < length (w_t w)"
    "min (length (w_t w) - w_tIndex w) (w_pLen w) = w_tLen w"
    by (auto simp: loop_inv_def writer_inv_def)
  show len: "length t = length (w_t w)"
    using n assms(2,3) by (simp add: buffered_def)
  have g: "go_copy (w_t w) (w_tIndex w) (drop (w_pIndex w) p) = (t, w_tLen w)"
    using n assms(2,3) by (simp add: go_copy_def Let_def buffered_def)
  show "SendChunk (w_s w) t = (None, s) \<Longrightarrow>
           write_loop SendChunk p w = write_loop SendChunk p (after_chunk w s t)"
    using n(1) by (subst write_loop.simps) (simp add: g after_chunk_def)
  show "SendChunk (w_s w) t = (Some e, s) \<Longrightarrow>
           \<exists>w'. write_loop SendChunk p w = Some (Err e, w') \<and> w_s w' = s"
    using n(1) by (subst write_loop.simps) (simp add: g)
  show "loop_inv p (after_chunk w s t)"
    using assms(1,2) n len by (auto simp: loop_inv_def writer_inv_def after_chunk_def)
qed

lemma after_chunk_simps [simp]:
  "w_s (after_chunk w s t) = s" "w_t (after_chunk w s t) = t" "buffered (after_chunk w s t) = []"
  "w_pIndex (after_chunk w s t) = w_pIndex w + w_tLen w"
  "w_pLen (after_chunk w s t) = w_pLen w - w_tLen w"
  by (simp_all add: after_chunk_def buffered_def)

subsection \<open>The contract of a sender and of the writer\<close>

text \<open>
  What a write of \<open>pLen\<close> bytes does, given the chunks \<open>cs\<close> it delivered and the data that was buffered
  before it together with the data written: on success all of it is delivered or buffered; when a send
  failed, what was delivered is a prefix of it.
\<close>

fun write_post :: "nat result \<Rightarrow> bytes list \<Rightarrow> 's Writer \<Rightarrow> nat \<Rightarrow> nat \<Rightarrow> bytes \<Rightarrow> bool" where
  "write_post (Ok n) cs w' tSize pLen dat \<longleftrightarrow>
     n = pLen \<and> writer_inv w' \<and> length (w_t w') = tSize \<and> concat cs @ buffered w' = dat"
| "write_post (Err e) cs w' tSize pLen dat \<longleftrightarrow> prefix (concat cs) dat"
| "write_post _ cs w' tSize pLen dat \<longleftrightarrow> False"

lemma write_post_Cons:
  "write_post r cs w' tSize pLen dat \<Longrightarrow> write_post r (c # cs) w' tSize pLen (c @ dat)"
  by (cases r) auto

definition writes ::
  "(bytes \<Rightarrow> 'm) \<Rightarrow> ('s \<Rightarrow> 'm list) \<Rightarrow> 's Writer \<Rightarrow> nat result \<times> 's Writer \<Rightarrow> nat \<Rightarrow> bytes \<Rightarrow> bool" where
  "writes Chunk log w rw pLen dat \<longleftrightarrow> (\<exists>cs.
     log (w_s (snd rw)) = log (w_s w) @ map Chunk cs \<and>
     list_all (\<lambda>c. length c = length (w_t w)) cs \<and>
     write_post (fst rw) cs (snd rw) (length (w_t w)) pLen dat)"

locale chunk_sender =
  fixes SendChunk :: "'s send"
    and SendChecksum :: "'s send"
    and Chunk :: "bytes \<Rightarrow> 'm"
    and Sum :: "bytes \<Rightarrow> 'm"
    and log :: "'s \<Rightarrow> 'm list"
    and reliable :: "'s \<Rightarrow> bool"
  assumes SendChunk_ok: "SendChunk s p = (None, s') \<Longrightarrow> log s' = log s @ [Chunk p]"
    and SendChunk_err: "SendChunk s p = (Some e, s') \<Longrightarrow> log s' = log s"
    and SendChunk_reliable: "reliable s \<Longrightarrow> SendChunk s p = (x, s') \<Longrightarrow> x = None \<and> reliable s'"
    and SendChecksum_ok: "SendChecksum s p = (None, s') \<Longrightarrow> log s' = log s @ (if p = [] then [] else [Sum p])"
    and SendChecksum_reliable: "reliable s \<Longrightarrow> SendChecksum s p = (x, s') \<Longrightarrow> x = None"
begin

text \<open>
  The loop always returns. When it succeeds, the delivered chunks grew by buffers of full size, and
  delivered plus buffered data grew by exactly the rest of the input. On a reliable stream it succeeds.
\<close>

lemma write_loop_spec:
  "loop_inv p w \<Longrightarrow> \<exists>rw. write_loop SendChunk p w = Some rw \<and>
     writes Chunk log w rw (length p) (buffered w @ drop (w_pIndex w) p) \<and>
     (reliable (w_s w) \<longrightarrow> (\<exists>n. fst rw = Ok n) \<and> reliable (w_s (snd rw)))"
proof (induction "w_pLen w" arbitrary: w rule: less_induct)
  case less
  consider "w_pLen w = 0" | "0 < w_pLen w" "w_pLen w < w_tLen w" | "w_tLen w \<le> w_pLen w"
    by linarith
  then show ?case
  proof cases
    case 1
    with less.prems have "write_loop SendChunk p w = Some (Ok (length p), w)"
      by (subst write_loop.simps) (simp add: loop_inv_def)
    with less.prems 1 show ?thesis by (auto simp: loop_inv_def writes_def)
  next
    case 2
    from write_loop_fits [OF less.prems 2, of SendChunk] show ?thesis
      by (auto simp: writes_def)
  next
    case 3
    define t where "t = buffered w @ take (w_tLen w) (drop (w_pIndex w) p)"
    note full = write_loop_full [OF less.prems 3 t_def]
    have rest: "buffered w @ drop (w_pIndex w) p = t @ drop (w_pIndex w + w_tLen w) p"
      by (simp add: t_def) (metis add.commute append_take_drop_id drop_drop)
    obtain e s where s: "SendChunk (w_s w) t = (e, s)" by fastforce
    show ?thesis
    proof (cases e)
      case (Some e')
      with full(3) [of SendChunk e' s] SendChunk_err SendChunk_reliable s show ?thesis
        by (fastforce simp: writes_def)
    next
      case None
      then have sent: "log s = log (w_s w) @ [Chunk t]" "reliable (w_s w) \<Longrightarrow> reliable s"
        using SendChunk_ok SendChunk_reliable s by auto
      have "w_pLen (after_chunk w s t) < w_pLen w"
        using less.prems 3 by (auto simp: loop_inv_def writer_inv_def)
      from less.hyps [OF this full(4)] obtain rw cs where
        IH: "write_loop SendChunk p (after_chunk w s t) = Some rw" "log (w_s (snd rw)) = log s @ map Chunk cs"
          "list_all (\<lambda>c. length c = length t) cs"
          "write_post (fst rw) cs (snd rw) (length t) (length p) (drop (w_pIndex w + w_tLen w) p)"
          "reliable s \<Longrightarrow> (\<exists>n. fst rw = Ok n) \<and> reliable (w_s (snd rw))"
        by (auto simp: writes_def)
      have "write_loop SendChunk p w = Some rw" using full(2) s None IH(1) by simp
      moreover have "writes Chunk log w rw (length p) (buffered w @ drop (w_pIndex w) p)"
        unfolding writes_def rest
        using IH(2-4) sent(1) full(1) write_post_Cons [OF IH(4), of t] by (intro exI [of _ "t # cs"]) simp
      ultimately show ?thesis using IH(5) sent(2) by blast
    qed
  qed
qed

lemma Write_spec:
  assumes "writer_inv w"
  shows "writes Chunk log w (Writer_Write SendChunk w p) (length p) (buffered w @ p)"
    and "reliable (w_s w) \<Longrightarrow> (\<exists>n. fst (Writer_Write SendChunk w p) = Ok n) \<and> reliable (w_s (snd (Writer_Write SendChunk w p)))"
proof -
  let ?w = "w\<lparr>w_pIndex := 0, w_pLen := length p\<rparr>"
  have "loop_inv p ?w" using assms by (simp add: loop_inv_def writer_inv_def)
  from write_loop_spec [OF this]
  show "writes Chunk log w (Writer_Write SendChunk w p) (length p) (buffered w @ p)"
    "reliable (w_s w) \<Longrightarrow> (\<exists>n. fst (Writer_Write SendChunk w p) = Ok n) \<and> reliable (w_s (snd (Writer_Write SendChunk w p)))"
    by (auto simp: Writer_Write_def buffered_def writes_def)
qed

text \<open>A successful write, and a successful flush.\<close>

lemma Write_ok:
  assumes "writer_inv w" and "Writer_Write SendChunk w p = (Ok n, w')"
  shows "n = length p" and "writer_inv w'" and "length (w_t w') = length (w_t w)"
    and "\<exists>cs. log (w_s w') = log (w_s w) @ map Chunk cs \<and> concat cs @ buffered w' = buffered w @ p \<and>
      list_all (\<lambda>c. length c = length (w_t w)) cs"
  using Write_spec(1) [OF assms(1), of p] assms(2) by (auto simp: writes_def)

lemma Write_returns: "writer_inv w \<Longrightarrow> returns (fst (Writer_Write SendChunk w p))"
  using Write_spec(1) [of w p]
  by (cases "fst (Writer_Write SendChunk w p)") (auto simp: writes_def)

text \<open>When a send failed, what was delivered is a prefix of what was to be written, in full buffers.\<close>

lemma Write_err:
  assumes "writer_inv w" and "Writer_Write SendChunk w p = (Err e, w')"
  shows "\<exists>cs. log (w_s w') = log (w_s w) @ map Chunk cs \<and> prefix (concat cs) (buffered w @ p)"
  using Write_spec(1) [OF assms(1), of p] assms(2) by (auto simp: writes_def)

lemma Flush_ok:
  assumes "writer_inv w" and "Writer_Flush SendChunk SendChecksum w checksum = (Ok (), w')"
  shows "log (w_s w') = log (w_s w) @ [Chunk (buffered w)] @ (if checksum = [] then [] else [Sum checksum])"
  using assms
  by (auto simp: Writer_Flush_def writer_inv_def buffered_def split: prod.splits option.splits if_splits
      dest!: SendChunk_ok SendChecksum_ok)

lemma Flush_returns: "returns (fst (Writer_Flush SendChunk SendChecksum w checksum))"
  by (auto simp: Writer_Flush_def split: prod.splits option.splits)

lemma Flush_reliable:
  "reliable (w_s w) \<Longrightarrow> fst (Writer_Flush SendChunk SendChecksum w checksum) = Ok ()"
  by (auto simp: Writer_Flush_def split: prod.splits option.splits
      dest: SendChunk_reliable SendChecksum_reliable)

end

text \<open>
  With an empty buffer the loop makes no progress: \<open>Write\<close> does not return. The callers never build one.
\<close>

definition stuck :: "'s send \<Rightarrow> 's Writer \<Rightarrow> bool" where
  "stuck SendChunk w \<longleftrightarrow> (\<forall>s p. fst (SendChunk s p) = None) \<and> w_t w = [] \<and> w_tLen w = 0 \<and> 0 < w_pLen w"

lemma write_loop_stuck:
  assumes "write_loop SendChunk p w = Some rw"
  shows "\<not> stuck SendChunk w"
proof (rule write_loop.raw_induct [OF _ assms, of "\<lambda>SendChunk p w rw. \<not> stuck SendChunk w"])
  fix wl and SendChunk :: "'s send" and p w rw
  assume IH: "\<And>SendChunk p w rw. wl SendChunk p w = Some rw \<Longrightarrow> \<not> stuck SendChunk w"
    and step: "(if w_pLen w > 0 then
        (let (t, n) = go_copy (w_t w) (w_tIndex w) (drop (w_pIndex w) p);
             w1 = w\<lparr>w_t := t, w_tIndex := w_tIndex w + n, w_pIndex := w_pIndex w + n,
                    w_pLen := w_pLen w - n, w_tLen := w_tLen w - n\<rparr>
         in if w_tLen w1 = 0 then
              (case SendChunk (w_s w1) (w_t w1) of
                 (Some e, s) \<Rightarrow> Some (Err e, w1\<lparr>w_s := s\<rparr>)
               | (None, s) \<Rightarrow> wl SendChunk p (w1\<lparr>w_s := s, w_tIndex := 0, w_tLen := length (w_t w1)\<rparr>))
            else wl SendChunk p w1)
      else Some (Ok (w_pIndex w), w)) = Some rw"
  show "\<not> stuck SendChunk w"
  proof
    assume st: "stuck SendChunk w"
    then obtain s where s: "SendChunk (w_s w) [] = (None, s)" unfolding stuck_def by (metis prod.collapse)
    from st s step have "wl SendChunk p (w\<lparr>w_t := [], w_s := s, w_tIndex := 0, w_tLen := 0\<rparr>) = Some rw"
      by (simp add: stuck_def go_copy_def Let_def)
    from IH [OF this] st show False by (simp add: stuck_def)
  qed
qed

end
