(* ===== verification/Storage.thy ===== *)
theory Storage
  imports Messages_Stream Grpc_Reader Grpc_Writer
begin

text \<open>
  The package \<^verbatim>\<open>storage\<close>: \<^verbatim>\<open>badger.go\<close>, \<^verbatim>\<open>batch_writer.go\<close> and \<^verbatim>\<open>gc.go\<close>. Badger, the protobuf runtime, the
  ULID generator and the clock are libraries outside the repository: the record \<open>lib\<close> holds the calls the
  code makes to them, as arguments of the model. Nothing is assumed about them here; the laws the
  results rest on are stated in \<^verbatim>\<open>Storage_Laws\<close>.

  \<^item> \<open>'d\<close> is the database (with its sequence), \<open>'t\<close> a transaction, \<open>'w\<close> a write batch, \<open>'u\<close> the ULID entropy.
  \<^item> The state of a call is the record \<open>BadgerDB\<close>; a method returns its outcome and the new state.
  \<^item> One call of a method is modelled as running alone. The mutexes \<open>RWMutex\<close>, \<open>lockedULID\<close> and
    \<open>lockedTransaction\<close> therefore leave no trace in the sequential model, and logging is left out.
\<close>

subsection \<open>The libraries\<close>

type_synonym item = "goerr + bytes"                      \<comment> \<open>what \<^verbatim>\<open>item.Value\<close> gives\<close>

record ('d, 't, 'w, 'u) lib =
  bg_open :: "bytes \<Rightarrow> bool \<Rightarrow> goerr + 'd"                \<comment> \<open>\<^verbatim>\<open>badger.Open\<close>: path, in memory\<close>
  bg_get_sequence :: "'d \<Rightarrow> bytes \<Rightarrow> goerr option \<times> 'd"
  bg_txn :: "'d \<Rightarrow> 't"                                   \<comment> \<open>\<^verbatim>\<open>db.View\<close>, \<^verbatim>\<open>db.Update\<close>, \<^verbatim>\<open>db.NewTransaction\<close>\<close>
  bg_get :: "'t \<Rightarrow> bytes \<Rightarrow> goerr + item"                 \<comment> \<open>\<^verbatim>\<open>txn.Get\<close>\<close>
  bg_items :: "'t \<Rightarrow> bool \<Rightarrow> (bytes \<times> item) list"         \<comment> \<open>what an iterator visits; \<open>True\<close> for \<^verbatim>\<open>Reverse\<close>\<close>
  bg_set :: "'t \<Rightarrow> bytes \<Rightarrow> bytes \<Rightarrow> goerr option \<times> 't"
  bg_delete :: "'t \<Rightarrow> bytes \<Rightarrow> goerr option \<times> 't"
  bg_commit :: "'t \<Rightarrow> 'd \<Rightarrow> goerr option \<times> 'd"
  bg_commit_open :: "'t \<Rightarrow> 'd \<Rightarrow> unit result \<times> 'd"       \<comment> \<open>\<^verbatim>\<open>txn.Commit\<close> with an iterator still open\<close>
  bg_new_batch :: "'d \<Rightarrow> 'w"                              \<comment> \<open>\<^verbatim>\<open>db.NewWriteBatch\<close>\<close>
  bg_set_entry :: "'w \<Rightarrow> 'd \<Rightarrow> bytes \<Rightarrow> bytes \<Rightarrow> 64 word option \<Rightarrow> goerr option \<times> 'w \<times> 'd"
                                                         \<comment> \<open>\<^verbatim>\<open>wb.SetEntry(NewEntry(k, v).WithTTL(ttl))\<close>\<close>
  bg_flush :: "'w \<Rightarrow> 'd \<Rightarrow> goerr option \<times> 'w \<times> 'd"
  bg_cancel :: "'w \<Rightarrow> 'd \<Rightarrow> 'd"
  bg_seq_next :: "'d \<Rightarrow> (goerr + 64 word) \<times> 'd"          \<comment> \<open>\<^verbatim>\<open>seq.Next\<close>\<close>
  bg_seq_release :: "'d \<Rightarrow> goerr option \<times> 'd"
  bg_close :: "'d \<Rightarrow> goerr option \<times> 'd"
  bg_drop_all :: "'d \<Rightarrow> goerr option \<times> 'd"
  bg_size :: "'d \<Rightarrow> 64 word \<times> 64 word"
  bg_value_log_gc :: "'d \<Rightarrow> goerr option \<times> 'd"           \<comment> \<open>\<^verbatim>\<open>db.RunValueLogGC(0.5)\<close>\<close>
  pb_marshal_cb :: "Clipboard \<Rightarrow> goerr + bytes"           \<comment> \<open>\<^verbatim>\<open>protobuf.Marshal\<close>\<close>
  pb_unmarshal_cb :: "bytes \<Rightarrow> goerr + Clipboard"
  pb_marshal_lt :: "LockedTransaction \<Rightarrow> goerr + bytes"
  pb_unmarshal_lt :: "bytes \<Rightarrow> goerr + LockedTransaction"
  ulid_new :: "'u \<Rightarrow> (goerr + bytes) \<times> 'u"               \<comment> \<open>\<^verbatim>\<open>ulid.New(ulid.Timestamp(b.t), entropy)\<close>, printed\<close>
  expire_at :: "64 word \<Rightarrow> bytes"                        \<comment> \<open>\<^verbatim>\<open>time.Now().Add(ttl).Format(RFC1123Z)\<close>\<close>

subsection \<open>badger.go: constants, configuration, state\<close>

definition latestKey :: bytes where "latestKey = str ''LATEST''"
definition versionKey :: bytes where "versionKey = str ''VERSION''"
definition pendingTxnKey :: bytes where "pendingTxnKey = str ''PENDING''"
definition chunkSuffix :: bytes where "chunkSuffix = str ''chunk''"
definition default_chunkSize :: nat where "default_chunkSize = 64 * 1024"
definition ValueLogFileSize :: nat where "ValueLogFileSize = 500 * 2 ^ 20"
definition discardKeyMaxNumber :: nat where "discardKeyMaxNumber = 20000"
definition MinGcInterval :: "64 word" where "MinGcInterval = 60 * 10 ^ 9"

record BadgerConfig =
  bc_Path :: bytes
  bc_InMemory :: bool
  bc_GcInterval :: "64 word"
  bc_ValueSize :: nat

record ('d, 'u) BadgerDB =
  db_db :: 'd
  db_entropy :: 'u
  db_config :: BadgerConfig
  db_valueLogFileSize :: nat
  db_chunkSize :: nat

text \<open>
  \<open>NewBadgerDB\<close> opens Badger and its version sequence. \<^verbatim>\<open>time.NewTicker\<close> panics unless its interval is
  positive. The collector goroutine it starts is \<open>gc_tick\<close> below, run once for each tick.
\<close>

definition NewBadgerDB ::
  "('d, 't, 'w, 'u) lib \<Rightarrow> BadgerConfig \<Rightarrow> 'u \<Rightarrow> ('d, 'u) BadgerDB result" where
  "NewBadgerDB L config entropy =
     (let path = (if bc_InMemory config then [] else bc_Path config)
      in case bg_open L path (bc_InMemory config) of
           Inl e \<Rightarrow> Err e
         | Inr d \<Rightarrow>
             (case bg_get_sequence L d versionKey of
                (Some e, d') \<Rightarrow> Err e
              | (None, d') \<Rightarrow>
                  if sint (bc_GcInterval config) \<le> 0 then Panic LibraryPanic
                  else Ok \<lparr>db_db = d', db_entropy = entropy, db_config = config,
                           db_valueLogFileSize = ValueLogFileSize, db_chunkSize = default_chunkSize\<rparr>))"

definition Close :: "('d, 't, 'w, 'u) lib \<Rightarrow> ('d, 'u) BadgerDB \<Rightarrow> unit result \<times> ('d, 'u) BadgerDB" where
  "Close L b = (let (_, d) = bg_seq_release L (db_db b); (e, d') = bg_close L d
     in (lift_err e, b\<lparr>db_db := d'\<rparr>))"

definition DropAll :: "('d, 't, 'w, 'u) lib \<Rightarrow> ('d, 'u) BadgerDB \<Rightarrow> unit result \<times> ('d, 'u) BadgerDB" where
  "DropAll L b = (let (e, d) = bg_drop_all L (db_db b) in (lift_err e, b\<lparr>db_db := d\<rparr>))"

definition Size :: "('d, 't, 'w, 'u) lib \<Rightarrow> ('d, 'u) BadgerDB \<Rightarrow> 64 word \<times> 64 word" where
  "Size L b = bg_size L (db_db b)"

definition Path :: "('d, 'u) BadgerDB \<Rightarrow> bytes" where
  "Path b = bc_Path (db_config b)"

definition InMemory :: "('d, 'u) BadgerDB \<Rightarrow> bool" where
  "InMemory b = bc_InMemory (db_config b)"

definition GcInterval :: "('d, 'u) BadgerDB \<Rightarrow> 64 word" where
  "GcInterval b = bc_GcInterval (db_config b)"

text \<open>\<open>ulid.MustNew\<close> panics where \<open>ulid.New\<close> fails.\<close>

definition mustNewULID ::
  "('d, 't, 'w, 'u) lib \<Rightarrow> ('d, 'u) BadgerDB \<Rightarrow> bytes result \<times> ('d, 'u) BadgerDB" where
  "mustNewULID L b =
     (case ulid_new L (db_entropy b) of
        (Inr i, u) \<Rightarrow> (Ok i, b\<lparr>db_entropy := u\<rparr>)
      | (Inl e, u) \<Rightarrow> (Panic LibraryPanic, b\<lparr>db_entropy := u\<rparr>))"

subsection \<open>Keys\<close>

definition index_prefix :: "64 word \<Rightarrow> bytes" where
  "index_prefix v = format_uint v @ str ''/''"

definition chunk_key :: "64 word \<Rightarrow> bytes \<Rightarrow> bytes" where
  "chunk_key v i = format_uint v @ str ''/'' @ i @ str ''/'' @ chunkSuffix"

text \<open>\<^verbatim>\<open>bytes.Split(key, "/")[0]\<close>: the part before the first separator.\<close>

definition first_segment :: "bytes \<Rightarrow> bytes" where
  "first_segment k = takeWhile (\<lambda>c. c \<noteq> 47) k"

subsection \<open>batch\_writer.go\<close>

record 'w BatchWriter =
  bw_WriteBatch :: 'w
  bw_batchSize :: nat
  bw_version :: "64 word"
  bw_once :: bool

type_synonym ('d, 'u, 'w) batch_state = "('d, 'u) BadgerDB \<times> 'w BatchWriter"

definition NewBatchWriter :: "('d, 't, 'w, 'u) lib \<Rightarrow> ('d, 'u) BadgerDB \<Rightarrow> 64 word \<Rightarrow> 'w BatchWriter" where
  "NewBatchWriter L b version =
     \<lparr>bw_WriteBatch = bg_new_batch L (db_db b), bw_batchSize = 0, bw_version = version, bw_once = False\<rparr>"

definition maxHeaderSize :: nat where "maxHeaderSize = 21"
definition crc32_Size :: nat where "crc32_Size = 4"

definition estimateEntrySize :: "bytes \<Rightarrow> bytes \<Rightarrow> nat" where
  "estimateEntrySize key v = maxHeaderSize + length key + length v + crc32_Size"

text \<open>
  \<^verbatim>\<open>db.Update(fn)\<close>: run \<open>fn\<close> on a new transaction, then commit unless it failed.
\<close>

definition db_Update ::
  "('d, 't, 'w, 'u) lib \<Rightarrow> ('t \<Rightarrow> unit result \<times> 't) \<Rightarrow> 'd \<Rightarrow> unit result \<times> 'd" where
  "db_Update L fn d =
     (case fn (bg_txn L d) of
        (Ok _, t) \<Rightarrow> (let (e, d') = bg_commit L t d in (lift_err e, d'))
      | (Err e, t) \<Rightarrow> (Err e, d)
      | (Panic p, t) \<Rightarrow> (Panic p, d)
      | (Loop, t) \<Rightarrow> (Loop, d))"

definition store_lt ::
  "('d, 't, 'w, 'u) lib \<Rightarrow> 't \<Rightarrow> LockedTransaction \<Rightarrow> unit result \<times> 't" where
  "store_lt L t m =
     (case pb_marshal_lt L m of
        Inl e \<Rightarrow> (Err e, t)
      | Inr v \<Rightarrow> (let (e, t') = bg_set L t pendingTxnKey v in (lift_err e, t')))"

text \<open>The transactions of \<open>lockVersion\<close> and \<open>unlockVersion\<close>.\<close>

definition lock_txn :: "('d, 't, 'w, 'u) lib \<Rightarrow> 64 word \<Rightarrow> 't \<Rightarrow> unit result \<times> 't" where
  "lock_txn L version t =
     (let found = (case bg_get L t pendingTxnKey of
                     Inl e \<Rightarrow> (if errors_is e BadgerErrKeyNotFound then Ok LockedTransaction_empty else Err e)
                   | Inr item \<Rightarrow> bind_result (lift_sum item) (\<lambda>v. lift_sum (pb_unmarshal_lt L v)))
      in and_then (found, t) (\<lambda>m t.
           store_lt L t (m\<lparr>lt_Versions := (lt_Versions m)(format_uint version \<mapsto> [])\<rparr>)))"

definition unlock_txn :: "('d, 't, 'w, 'u) lib \<Rightarrow> 64 word \<Rightarrow> 't \<Rightarrow> unit result \<times> 't" where
  "unlock_txn L version t =
     (case bg_get L t pendingTxnKey of
        Inl e \<Rightarrow> (if errors_is e BadgerErrKeyNotFound then (Ok (), t) else (Err e, t))
      | Inr item \<Rightarrow>
          and_then (bind_result (lift_sum item) (\<lambda>v. lift_sum (pb_unmarshal_lt L v)), t) (\<lambda>m t.
            store_lt L t (m\<lparr>lt_Versions := (lt_Versions m)(format_uint version := None)\<rparr>)))"

text \<open>\<^verbatim>\<open>sync.Once\<close>: the body runs at the first call only, whatever it returns.\<close>

definition lockVersion ::
  "('d, 't, 'w, 'u) lib \<Rightarrow> ('d, 'u, 'w) batch_state \<Rightarrow> unit result \<times> ('d, 'u, 'w) batch_state" where
  "lockVersion L st = (let (b, bw) = st in
     if bw_once bw then (Ok (), st)
     else (let (r, d) = db_Update L (lock_txn L (bw_version bw)) (db_db b)
           in (r, b\<lparr>db_db := d\<rparr>, bw\<lparr>bw_once := True\<rparr>)))"

definition unlockVersion ::
  "('d, 't, 'w, 'u) lib \<Rightarrow> ('d, 'u, 'w) batch_state \<Rightarrow> unit result \<times> ('d, 'u, 'w) batch_state" where
  "unlockVersion L st = (let (b, bw) = st;
        (r, d) = db_Update L (unlock_txn L (bw_version bw)) (db_db b)
     in (r, b\<lparr>db_db := d\<rparr>, bw))"

definition batch_Flush ::
  "('d, 't, 'w, 'u) lib \<Rightarrow> ('d, 'u, 'w) batch_state \<Rightarrow> unit result \<times> ('d, 'u, 'w) batch_state" where
  "batch_Flush L st = (let (b, bw) = st; (e, w, d) = bg_flush L (bw_WriteBatch bw) (db_db b)
     in (lift_err e, b\<lparr>db_db := d\<rparr>, bw\<lparr>bw_WriteBatch := w\<rparr>))"

definition batch_SetEntry ::
  "('d, 't, 'w, 'u) lib \<Rightarrow> bytes \<Rightarrow> bytes \<Rightarrow> 64 word option \<Rightarrow> ('d, 'u, 'w) batch_state \<Rightarrow>
     unit result \<times> ('d, 'u, 'w) batch_state" where
  "batch_SetEntry L key v ttl st =
     (let (b, bw) = st; (e, w, d) = bg_set_entry L (bw_WriteBatch bw) (db_db b) key v ttl
      in (lift_err e, b\<lparr>db_db := d\<rparr>, bw\<lparr>bw_WriteBatch := w\<rparr>))"

definition Validate ::
  "('d, 't, 'w, 'u) lib \<Rightarrow> bytes \<Rightarrow> bytes \<Rightarrow> ('d, 'u, 'w) batch_state \<Rightarrow>
     unit result \<times> ('d, 'u, 'w) batch_state" where
  "Validate L key v st =
     (let (b, bw) = st;
          bw1 = bw\<lparr>bw_batchSize := bw_batchSize bw + estimateEntrySize key v\<rparr>
      in if db_valueLogFileSize b < bw_batchSize bw1 then
           and_then (lockVersion L (b, bw1)) (\<lambda>_ st1.
           and_then (batch_Flush L st1) (\<lambda>_ (b2, bw2).
             (Ok (), b2, bw2\<lparr>bw_WriteBatch := bg_new_batch L (db_db b2), bw_batchSize := 0\<rparr>)))
         else (Ok (), b, bw1))"

definition Release ::
  "('d, 't, 'w, 'u) lib \<Rightarrow> ('d, 'u, 'w) batch_state \<Rightarrow> unit result \<times> ('d, 'u, 'w) batch_state" where
  "Release L st = (let (b, bw) = st
     in unlockVersion L (b\<lparr>db_db := bg_cancel L (bw_WriteBatch bw) (db_db b)\<rparr>, bw))"

subsection \<open>badger.go: WriteBatch\<close>

text \<open>One chunk: a new key, \<open>Validate\<close>, \<open>SetEntry\<close>.\<close>

definition put_chunk ::
  "('d, 't, 'w, 'u) lib \<Rightarrow> 64 word \<Rightarrow> bytes \<Rightarrow> ('d, 'u, 'w) batch_state \<Rightarrow>
     unit result \<times> ('d, 'u, 'w) batch_state" where
  "put_chunk L version v st =
     (let (b, bw) = st; (i, b1) = mustNewULID L b
      in and_then (i, b1, bw) (\<lambda>i st1.
           and_then (Validate L (chunk_key version i) v st1) (\<lambda>_ st2.
             batch_SetEntry L (chunk_key version i) v None st2)))"

text \<open>
  The loop over \<open>r.Read(buf)\<close>. \<open>None\<close> means that it does not return; \<open>Read\<close> is the method of the \<open>StreamReader\<close>.
\<close>

partial_function (option) batch_loop ::
  "('d, 't, 'w, 'u) lib \<Rightarrow> 'r io_read \<Rightarrow> 64 word \<Rightarrow> nat \<Rightarrow> bytes \<Rightarrow> 'r \<Rightarrow> ('d, 'u, 'w) batch_state \<Rightarrow>
     (nat result \<times> 'r \<times> ('d, 'u, 'w) batch_state) option" where
  "batch_loop L Read version written buf r st =
     (case Read r buf of
        (Ok (nr, err), buf1, r1) \<Rightarrow>
          (case err of
             Some e \<Rightarrow>
               if \<not> errors_is e EOF then Some (Err e, r1, st)
               else if nr > 0 then
                 (case put_chunk L version (take nr buf1) st of
                    (Ok _, st1) \<Rightarrow> Some (Ok (written + nr), r1, st1)
                  | (Err e, st1) \<Rightarrow> Some (Err e, r1, st1)
                  | (Panic p, st1) \<Rightarrow> Some (Panic p, r1, st1)
                  | (Loop, st1) \<Rightarrow> Some (Loop, r1, st1))
               else Some (Ok written, r1, st)
           | None \<Rightarrow>
               (case put_chunk L version (take nr buf1) st of
                  (Ok _, st1) \<Rightarrow> batch_loop L Read version (written + nr) buf1 r1 st1
                | (Err e, st1) \<Rightarrow> Some (Err e, r1, st1)
                | (Panic p, st1) \<Rightarrow> Some (Panic p, r1, st1)
                | (Loop, st1) \<Rightarrow> Some (Loop, r1, st1)))
      | (Err e, buf1, r1) \<Rightarrow> Some (Err e, r1, st)
      | (Panic p, buf1, r1) \<Rightarrow> Some (Panic p, r1, st)
      | (Loop, buf1, r1) \<Rightarrow> Some (Loop, r1, st))"

declare batch_loop.simps [code]

text \<open>The index entry \<^verbatim>\<open>LATEST\<close>, written last, and the final flush.\<close>

definition put_latest ::
  "('d, 't, 'w, 'u) lib \<Rightarrow> Clipboard \<Rightarrow> 64 word \<Rightarrow> ('d, 'u, 'w) batch_state \<Rightarrow>
     unit result \<times> ('d, 'u, 'w) batch_state" where
  "put_latest L cb ttl st =
     (case pb_marshal_cb L cb of
        Inl e \<Rightarrow> (Err e, st)
      | Inr v \<Rightarrow>
          and_then (Validate L latestKey v st) (\<lambda>_ st1.
          and_then (batch_SetEntry L latestKey v (Some ttl) st1) (\<lambda>_ st2.
            batch_Flush L st2)))"

record clip_header =
  h_compressed :: bool
  h_masterKeyNonce :: bytes
  h_keyNonce :: bytes
  h_iv :: bytes

definition new_clipboard ::
  "('d, 't, 'w, 'u) lib \<Rightarrow> 64 word \<Rightarrow> 64 word \<Rightarrow> clip_header \<Rightarrow> bytes \<Rightarrow> nat \<Rightarrow> Clipboard" where
  "new_clipboard L version ttl h checksum written =
     \<lparr>cb_Sequence = version, cb_ExpireAt = expire_at L ttl, cb_Compressed = h_compressed h,
      cb_MasterKeyNonce = h_masterKeyNonce h, cb_KeyNonce = h_keyNonce h, cb_Iv = h_iv h,
      cb_Checksum = checksum, cb_Size = word_of_nat written, cb_unknownFields = []\<rparr>"

text \<open>
  The deferred \<open>Release\<close> runs after every outcome (a panic included); its error is only logged.
\<close>

definition WriteBatch ::
  "('d, 't, 'w, 'u) lib \<Rightarrow> 'r io_read \<Rightarrow> ('r \<Rightarrow> bytes) \<Rightarrow> ('d, 'u) BadgerDB \<Rightarrow> 'r \<Rightarrow> 64 word \<Rightarrow> clip_header \<Rightarrow>
     nat result \<times> ('d, 'u) BadgerDB \<times> 'r" where
  "WriteBatch L Read Checksum b r ttl h =
     (case bg_seq_next L (db_db b) of
        (Inl e, d) \<Rightarrow> (Err e, b\<lparr>db_db := d\<rparr>, r)
      | (Inr version, d) \<Rightarrow>
          (let b1 = b\<lparr>db_db := d\<rparr>
           in case batch_loop L Read version 0 (replicate (db_chunkSize b) 0) r
                     (b1, NewBatchWriter L b1 version) of
                None \<Rightarrow> (Loop, b1, r)
              | Some (written, r1, st1) \<Rightarrow>
                  (let (res, st2) = and_then (written, st1) (\<lambda>n st.
                         and_then (put_latest L (new_clipboard L version ttl h (Checksum r1) n) ttl st)
                           (\<lambda>_ st'. (Ok n, st')));
                       (_, b3, _) = Release L st2
                   in (res, b3, r1))))"

subsection \<open>badger.go: ReadBatch\<close>

text \<open>
  The two interfaces \<open>StreamWriter\<close> and \<open>HeaderWriter\<close> act on one shared state \<open>'o\<close> (in the server both reach the same stream).
\<close>

type_synonym 'o header_write = "'o \<Rightarrow> bool \<Rightarrow> bool \<Rightarrow> bytes \<Rightarrow> bytes \<Rightarrow> bytes \<Rightarrow> goerr option \<times> 'o"
type_synonym 'o stream_write = "'o \<Rightarrow> bytes \<Rightarrow> nat result \<times> 'o"
type_synonym 'o stream_flush = "'o \<Rightarrow> bytes \<Rightarrow> unit result \<times> 'o"

fun read_items ::
  "'o stream_write \<Rightarrow> nat \<Rightarrow> (bytes \<times> item) list \<Rightarrow> 'o \<Rightarrow> nat result \<times> 'o" where
  "read_items Write read [] out = (Ok read, out)"
| "read_items Write read ((k, Inl e) # items) out = (Err e, out)"
| "read_items Write read ((k, Inr v) # items) out =
     (if suffix chunkSuffix k
      then and_then (Write out v) (\<lambda>nw. read_items Write (read + nw) items)
      else read_items Write read items out)"

text \<open>The transaction of \<open>ReadBatch\<close>, on what it finds under \<^verbatim>\<open>LATEST\<close>.\<close>

definition read_txn ::
  "('d, 't, 'w, 'u) lib \<Rightarrow> 'o stream_write \<Rightarrow> 'o stream_flush \<Rightarrow> 'o header_write \<Rightarrow> 't \<Rightarrow> 'o \<Rightarrow>
     nat result \<times> 'o" where
  "read_txn L Write Flush Header t out =
     (case bg_get L t latestKey of
        Inl e \<Rightarrow> (Err (if errors_is e BadgerErrKeyNotFound then ErrKeyNotFound else e), out)
      | Inr item \<Rightarrow>
          and_then (bind_result (lift_sum item) (\<lambda>v. lift_sum (pb_unmarshal_cb L v)), out) (\<lambda>cb o1.
          and_then (let (e, o2) = Header o1 (cb_Compressed cb) (cb_Checksum cb \<noteq> [])
                          (cb_MasterKeyNonce cb) (cb_KeyNonce cb) (cb_Iv cb)
                    in (lift_err e, o2)) (\<lambda>_ o2.
          and_then (read_items Write 0 (seek_prefix (index_prefix (cb_Sequence cb)) (bg_items L t False)) o2)
            (\<lambda>read o3. and_then (Flush o3 (cb_Checksum cb)) (\<lambda>_ o4. (Ok read, o4))))))"

definition ReadBatch ::
  "('d, 't, 'w, 'u) lib \<Rightarrow> 'o stream_write \<Rightarrow> 'o stream_flush \<Rightarrow> 'o header_write \<Rightarrow> ('d, 'u) BadgerDB \<Rightarrow>
     'o \<Rightarrow> nat result \<times> 'o" where
  "ReadBatch L Write Flush Header b out = read_txn L Write Flush Header (bg_txn L (db_db b)) out"

end
