(* ===== verification/Storage_Laws.thy ===== *)
theory Storage_Laws
  imports Storage
begin

text \<open>
  What the results about the package \<^verbatim>\<open>storage\<close> assume of the libraries it calls, as predicates on the record \<open>lib\<close>:
  transactions that read a snapshot and commit atomically, sorted iterators, write batches that may commit early and
  commit the rest at \<open>Flush\<close>, a sequence that never hands out a number twice, monotonic ULIDs and a protobuf runtime
  that reads back what it wrote. Calls that write may fail; a failed commit changes nothing.

  A \<open>view\<close> names what the laws talk about: \<open>live\<close> is the content of the database, \<open>nxt\<close> a bound above every version handed
  out, \<open>seen\<close> what a transaction reads (its own writes included) and \<open>base\<close> the content it started from, \<open>pend\<close> the
  entries of a write batch not committed yet, \<open>last_id\<close> the last ULID.
\<close>

record ('d, 't, 'w, 'u) view =
  live :: "'d \<Rightarrow> bytes \<rightharpoonup> bytes"
  nxt :: "'d \<Rightarrow> nat"
  base :: "'t \<Rightarrow> bytes \<rightharpoonup> bytes"
  seen :: "'t \<Rightarrow> bytes \<rightharpoonup> bytes"
  pend :: "'w \<Rightarrow> bytes \<rightharpoonup> bytes"
  last_id :: "'u \<Rightarrow> bytes"

definition txn_laws :: "('d, 't, 'w, 'u) lib \<Rightarrow> ('d, 't, 'w, 'u) view \<Rightarrow> bool" where
  "txn_laws L V \<longleftrightarrow>
     (\<forall>d. finite (dom (live V d)) \<and> base V (bg_txn L d) = live V d \<and> seen V (bg_txn L d) = live V d) \<and>
     (\<forall>t k. bg_get L t k = (case seen V t k of None \<Rightarrow> Inl BadgerErrKeyNotFound | Some v \<Rightarrow> Inr (Inr v))) \<and>
     (\<forall>t. \<exists>es. sorted_wrt (<) (map fst es) \<and> map_of es = seen V t \<and>
        bg_items L t False = map (apsnd Inr) es \<and> bg_items L t True = rev (map (apsnd Inr) es)) \<and>
     (\<forall>t k v e t'. bg_set L t k v = (e, t') \<longrightarrow> base V t' = base V t \<and>
        seen V t' = (if e = None then (seen V t)(k \<mapsto> v) else seen V t)) \<and>
     (\<forall>t k e t'. bg_delete L t k = (e, t') \<longrightarrow> base V t' = base V t \<and>
        seen V t' = (if e = None then (seen V t)(k := None) else seen V t)) \<and>
     (\<forall>t d e d'. bg_commit L t d = (e, d') \<longrightarrow> base V t = live V d \<longrightarrow> nxt V d' = nxt V d \<and>
        live V d' = (if e = None then seen V t else live V d))"

text \<open>An entry with a time to live is still there after the write when that time is at least a second.\<close>

definition alive :: "64 word option \<Rightarrow> bool" where
  "alive ttl \<longleftrightarrow> (case ttl of None \<Rightarrow> True | Some t \<Rightarrow> 10 ^ 9 \<le> sint t)"

definition batch_laws :: "('d, 't, 'w, 'u) lib \<Rightarrow> ('d, 't, 'w, 'u) view \<Rightarrow> bool" where
  "batch_laws L V \<longleftrightarrow>
     (\<forall>d. pend V (bg_new_batch L d) = Map.empty) \<and>
     (\<forall>w d k v ttl w' d'. bg_set_entry L w d k v ttl = (None, w', d') \<longrightarrow> alive ttl \<longrightarrow>
        live V d' = live V d \<and> pend V w' = (pend V w)(k \<mapsto> v) \<or>
        live V d' = live V d ++ pend V w \<and> pend V w' = [k \<mapsto> v]) \<and>
     (\<forall>w d k v ttl e w' d'. bg_set_entry L w d k v ttl = (e, w', d') \<longrightarrow> nxt V d' = nxt V d \<and>
        (live V d' = live V d \<or> live V d' = live V d ++ pend V w)) \<and>
     (\<forall>w d e w' d'. bg_flush L w d = (e, w', d') \<longrightarrow> nxt V d' = nxt V d \<and>
        live V d' = (if e = None then live V d ++ pend V w else live V d) \<and>
        (e = None \<longrightarrow> pend V w' = Map.empty)) \<and>
     (\<forall>w d. nxt V (bg_cancel L w d) = nxt V d \<and> live V (bg_cancel L w d) = live V d)"

definition seq_laws :: "('d, 't, 'w, 'u) lib \<Rightarrow> ('d, 't, 'w, 'u) view \<Rightarrow> bool" where
  "seq_laws L V \<longleftrightarrow>
     (\<forall>d x d'. bg_seq_next L d = (x, d') \<longrightarrow>
        nxt V d \<le> nxt V d' \<and> (\<forall>k. k \<noteq> versionKey \<longrightarrow> live V d' k = live V d k) \<and>
        (\<forall>v. x = Inr v \<longrightarrow> nxt V d \<le> unat v \<and> unat v < nxt V d'))"

definition ulid_size :: nat where "ulid_size = 26"

definition ulid_laws :: "('d, 't, 'w, 'u) lib \<Rightarrow> ('d, 't, 'w, 'u) view \<Rightarrow> bool" where
  "ulid_laws L V \<longleftrightarrow>
     (\<forall>u i u'. ulid_new L u = (Inr i, u') \<longrightarrow>
        length i = ulid_size \<and> 47 \<notin> set i \<and> last_id V u < i \<and> last_id V u' = i)"

definition pb_laws :: "('d, 't, 'w, 'u) lib \<Rightarrow> bool" where
  "pb_laws L \<longleftrightarrow>
     (\<forall>cb v. pb_marshal_cb L cb = Inr v \<longrightarrow> pb_unmarshal_cb L v = Inr cb) \<and>
     (\<forall>m v. pb_marshal_lt L m = Inr v \<longrightarrow> pb_unmarshal_lt L v = Inr m)"

text \<open>Dropping everything, compacting the value log, and a commit while an iterator is open (which may panic).\<close>

definition admin_laws :: "('d, 't, 'w, 'u) lib \<Rightarrow> ('d, 't, 'w, 'u) view \<Rightarrow> bool" where
  "admin_laws L V \<longleftrightarrow>
     (\<forall>d d'. bg_drop_all L d = (None, d') \<longrightarrow> live V d' = Map.empty) \<and>
     (\<forall>d e d'. bg_value_log_gc L d = (e, d') \<longrightarrow> nxt V d' = nxt V d \<and> live V d' = live V d) \<and>
     (\<forall>t d r d'. bg_commit_open L t d = (r, d') \<longrightarrow> base V t = live V d \<longrightarrow> nxt V d' = nxt V d \<and>
        live V d' = (if r = Ok () then seen V t else live V d))"

definition lib_laws :: "('d, 't, 'w, 'u) lib \<Rightarrow> ('d, 't, 'w, 'u) view \<Rightarrow> bool" where
  "lib_laws L V \<longleftrightarrow>
     txn_laws L V \<and> batch_laws L V \<and> seq_laws L V \<and> ulid_laws L V \<and> pb_laws L \<and> admin_laws L V"

text \<open>The laws one by one, as the proofs use them.\<close>

lemma lib_laws_txn:
  assumes "lib_laws L V"
  shows "base V (bg_txn L d) = live V d" and "seen V (bg_txn L d) = live V d" and "finite (dom (live V d))"
    and "bg_get L t k = (case seen V t k of None \<Rightarrow> Inl BadgerErrKeyNotFound | Some v \<Rightarrow> Inr (Inr v))"
    and "\<exists>es. sorted_wrt (<) (map fst es) \<and> map_of es = seen V t \<and>
        bg_items L t False = map (apsnd Inr) es \<and> bg_items L t True = rev (map (apsnd Inr) es)"
  using assms by (simp_all add: lib_laws_def txn_laws_def)

lemma lib_laws_set:
  "lib_laws L V \<Longrightarrow> bg_set L t k v = (e, t') \<Longrightarrow>
   base V t' = base V t \<and> seen V t' = (if e = None then (seen V t)(k \<mapsto> v) else seen V t)"
  unfolding lib_laws_def txn_laws_def by blast

lemma lib_laws_delete:
  "lib_laws L V \<Longrightarrow> bg_delete L t k = (e, t') \<Longrightarrow>
   base V t' = base V t \<and> seen V t' = (if e = None then (seen V t)(k := None) else seen V t)"
  unfolding lib_laws_def txn_laws_def by blast

lemma lib_laws_commit:
  "lib_laws L V \<Longrightarrow> bg_commit L t d = (e, d') \<Longrightarrow> base V t = live V d \<Longrightarrow>
   nxt V d' = nxt V d \<and> live V d' = (if e = None then seen V t else live V d)"
  unfolding lib_laws_def txn_laws_def by blast

lemma lib_laws_new_batch [simp]: "lib_laws L V \<Longrightarrow> pend V (bg_new_batch L d) = Map.empty"
  unfolding lib_laws_def batch_laws_def by (elim conjE) blast

lemma lib_laws_set_entry_ok:
  "lib_laws L V \<Longrightarrow> bg_set_entry L w d k v ttl = (None, w', d') \<Longrightarrow> alive ttl \<Longrightarrow>
   live V d' = live V d \<and> pend V w' = (pend V w)(k \<mapsto> v) \<or>
   live V d' = live V d ++ pend V w \<and> pend V w' = [k \<mapsto> v]"
  unfolding lib_laws_def batch_laws_def by meson

lemma lib_laws_set_entry:
  "lib_laws L V \<Longrightarrow> bg_set_entry L w d k v ttl = (e, w', d') \<Longrightarrow>
   nxt V d' = nxt V d \<and> (live V d' = live V d \<or> live V d' = live V d ++ pend V w)"
  unfolding lib_laws_def batch_laws_def by blast

lemma lib_laws_flush:
  "lib_laws L V \<Longrightarrow> bg_flush L w d = (e, w', d') \<Longrightarrow>
   nxt V d' = nxt V d \<and> live V d' = (if e = None then live V d ++ pend V w else live V d) \<and>
   (e = None \<longrightarrow> pend V w' = Map.empty)"
  unfolding lib_laws_def batch_laws_def by blast

lemma lib_laws_cancel [simp]:
  "lib_laws L V \<Longrightarrow> nxt V (bg_cancel L w d) = nxt V d \<and> live V (bg_cancel L w d) = live V d"
  unfolding lib_laws_def batch_laws_def by meson

lemma lib_laws_seq:
  assumes "lib_laws L V" and "bg_seq_next L d = (x, d')"
  shows "nxt V d \<le> nxt V d'" and "k \<noteq> versionKey \<Longrightarrow> live V d' k = live V d k"
    and "x = Inr v \<Longrightarrow> nxt V d \<le> unat v \<and> unat v < nxt V d'"
proof -
  have "\<forall>d x d'. bg_seq_next L d = (x, d') \<longrightarrow>
        nxt V d \<le> nxt V d' \<and> (\<forall>k. k \<noteq> versionKey \<longrightarrow> live V d' k = live V d k) \<and>
        (\<forall>v. x = Inr v \<longrightarrow> nxt V d \<le> unat v \<and> unat v < nxt V d')"
    using assms(1) unfolding lib_laws_def seq_laws_def by (elim conjE)
  with assms(2) show "nxt V d \<le> nxt V d'" "k \<noteq> versionKey \<Longrightarrow> live V d' k = live V d k"
    "x = Inr v \<Longrightarrow> nxt V d \<le> unat v \<and> unat v < nxt V d'" by simp_all
qed

lemma lib_laws_ulid:
  "lib_laws L V \<Longrightarrow> ulid_new L u = (Inr i, u') \<Longrightarrow>
   length i = ulid_size \<and> 47 \<notin> set i \<and> last_id V u < i \<and> last_id V u' = i"
  unfolding lib_laws_def ulid_laws_def by blast

lemma lib_laws_pb:
  assumes "lib_laws L V"
  shows "pb_marshal_cb L cb = Inr v \<Longrightarrow> pb_unmarshal_cb L v = Inr cb"
    and "pb_marshal_lt L m = Inr v \<Longrightarrow> pb_unmarshal_lt L v = Inr m"
  using assms unfolding lib_laws_def pb_laws_def by blast+

lemma lib_laws_admin:
  assumes "lib_laws L V"
  shows "bg_drop_all L d = (None, d') \<Longrightarrow> live V d' = Map.empty"
    and "bg_value_log_gc L d = (e, d') \<Longrightarrow> nxt V d' = nxt V d \<and> live V d' = live V d"
    and "bg_commit_open L t d = (r, d') \<Longrightarrow> base V t = live V d \<Longrightarrow>
      nxt V d' = nxt V d \<and> live V d' = (if r = Ok () then seen V t else live V d)"
  using assms unfolding lib_laws_def admin_laws_def by meson+

subsection \<open>Keys\<close>

lemma str_slash [simp]: "str ''/'' = [47]"
  by (simp add: str_def)

lemma slash_notin_special [simp]:
  "47 \<notin> set latestKey" "47 \<notin> set versionKey" "47 \<notin> set pendingTxnKey"
  by (simp_all add: latestKey_def versionKey_def pendingTxnKey_def str_def)

lemma special_distinct [simp]:
  "latestKey \<noteq> versionKey" "latestKey \<noteq> pendingTxnKey" "versionKey \<noteq> pendingTxnKey"
  "versionKey \<noteq> latestKey" "pendingTxnKey \<noteq> latestKey" "pendingTxnKey \<noteq> versionKey"
  by (simp_all add: latestKey_def versionKey_def pendingTxnKey_def str_def)

lemma slash_in_chunk_key: "47 \<in> set (chunk_key v i)"
  by (simp add: chunk_key_def)

lemma chunk_key_special [simp]:
  "chunk_key v i \<noteq> latestKey" "chunk_key v i \<noteq> versionKey" "chunk_key v i \<noteq> pendingTxnKey"
  "latestKey \<noteq> chunk_key v i" "versionKey \<noteq> chunk_key v i" "pendingTxnKey \<noteq> chunk_key v i"
  using slash_in_chunk_key [of v i] slash_notin_special by metis+

lemma takeWhile_until: "x \<notin> set xs \<Longrightarrow> takeWhile (\<lambda>c. c \<noteq> x) (xs @ x # ys) = xs"
  by (induction xs) auto

lemma first_segment_chunk_key [simp]: "first_segment (chunk_key v i) = format_uint v"
  by (simp add: first_segment_def chunk_key_def takeWhile_until)

lemma prefix_index_imp: "prefix (index_prefix v) k \<Longrightarrow> first_segment k = format_uint v"
  by (auto simp: index_prefix_def prefix_def first_segment_def takeWhile_until)

lemma prefix_index_chunk_key [simp]: "prefix (index_prefix v) (chunk_key v' i) \<longleftrightarrow> v = v'"
proof
  assume "prefix (index_prefix v) (chunk_key v' i)"
  from prefix_index_imp [OF this] show "v = v'" by simp
qed (simp add: index_prefix_def chunk_key_def)

lemma prefix_index_special [simp]:
  "\<not> prefix (index_prefix v) latestKey" "\<not> prefix (index_prefix v) versionKey"
  "\<not> prefix (index_prefix v) pendingTxnKey"
proof -
  have "\<not> prefix (index_prefix v) k" if "47 \<notin> set k" for k
    using that by (auto simp: prefix_def index_prefix_def)
  then show "\<not> prefix (index_prefix v) latestKey" "\<not> prefix (index_prefix v) versionKey"
    "\<not> prefix (index_prefix v) pendingTxnKey" by simp_all
qed

lemma suffix_chunk_key [simp]: "suffix chunkSuffix (chunk_key v i)"
  by (simp add: chunk_key_def suffix_def)

lemma chunk_key_less: "i < j \<Longrightarrow> length i = length j \<Longrightarrow> chunk_key v i < chunk_key v j"
  by (simp add: chunk_key_def less_append_same_length)

lemma chunk_key_inject: "length i = length j \<Longrightarrow> chunk_key v i = chunk_key v j \<longleftrightarrow> i = j"
  by (simp add: chunk_key_def)

subsection \<open>The abstract clipboard\<close>

text \<open>
  The specification of the store: the chunks of a version, in key order, and the current clipboard, its record with its
  chunks.
\<close>

definition stored_chunks :: "(bytes \<rightharpoonup> bytes) \<Rightarrow> 64 word \<Rightarrow> bytes list" where
  "stored_chunks m v =
     map (\<lambda>k. the (m k)) (sorted_list_of_set {k \<in> dom m. prefix (index_prefix v) k \<and> suffix chunkSuffix k})"

definition clipboard_of ::
  "('d, 't, 'w, 'u) lib \<Rightarrow> (bytes \<rightharpoonup> bytes) \<Rightarrow> (Clipboard \<times> bytes list) option" where
  "clipboard_of L m =
     (case m latestKey of
        None \<Rightarrow> None
      | Some v \<Rightarrow>
          (case pb_unmarshal_cb L v of
             Inl e \<Rightarrow> None
           | Inr cb \<Rightarrow> Some (cb, stored_chunks m (cb_Sequence cb))))"

text \<open>
  The invariant of the store: there are no keys but the three special ones and chunk keys, the record of the current
  clipboard can be decoded, and every version that occurs, in a chunk key or as the current clipboard, was handed out
  before.
\<close>

definition store_inv :: "('d, 't, 'w, 'u) lib \<Rightarrow> (bytes \<rightharpoonup> bytes) \<Rightarrow> nat \<Rightarrow> bool" where
  "store_inv L m n \<longleftrightarrow>
     (\<forall>k \<in> dom m. k = latestKey \<or> k = versionKey \<or> k = pendingTxnKey \<or>
        (\<exists>v i. k = chunk_key v i \<and> unat v < n)) \<and>
     (\<forall>v. m latestKey = Some v \<longrightarrow> (\<exists>cb. pb_unmarshal_cb L v = Inr cb \<and> unat (cb_Sequence cb) < n))"

definition db_inv :: "('d, 't, 'w, 'u) lib \<Rightarrow> ('d, 't, 'w, 'u) view \<Rightarrow> ('d, 'u) BadgerDB \<Rightarrow> bool" where
  "db_inv L V b \<longleftrightarrow> store_inv L (live V (db_db b)) (nxt V (db_db b)) \<and> 0 < db_chunkSize b"

lemma store_inv_keys:
  assumes "store_inv L m n" and "k \<in> dom m" and "k \<noteq> latestKey" and "k \<noteq> versionKey" and "k \<noteq> pendingTxnKey"
  obtains v i where "k = chunk_key v i" and "unat v < n"
  using assms unfolding store_inv_def by blast

lemma store_inv_version:
  assumes "store_inv L m n" and "k \<in> dom m" and k: "prefix (index_prefix v) k"
  shows "unat v < n"
proof -
  from k have "k \<noteq> latestKey" "k \<noteq> versionKey" "k \<noteq> pendingTxnKey" by auto
  then obtain v' i where "k = chunk_key v' i" "unat v' < n"
    by (rule store_inv_keys [OF assms(1,2)])
  with k show ?thesis by simp
qed

lemma stored_chunks_cong:
  assumes "\<And>k. prefix (index_prefix v) k \<Longrightarrow> m k = m' k"
  shows "stored_chunks m v = stored_chunks m' v"
proof -
  have *: "{k \<in> dom m. prefix (index_prefix v) k \<and> suffix chunkSuffix k} =
      {k \<in> dom m'. prefix (index_prefix v) k \<and> suffix chunkSuffix k}" (is "?A = ?B")
    using assms by (auto simp: dom_def)
  have "set (sorted_list_of_set ?B) \<subseteq> ?B" by (cases "finite ?B") auto
  with * assms show ?thesis
    unfolding stored_chunks_def by (auto intro!: map_cong)
qed

lemma clipboard_of_cong:
  assumes "m latestKey = m' latestKey"
    and "\<And>cb chunks k. clipboard_of L m' = Some (cb, chunks) \<Longrightarrow> prefix (index_prefix (cb_Sequence cb)) k \<Longrightarrow> m k = m' k"
  shows "clipboard_of L m = clipboard_of L m'"
  using assms
  by (auto simp: clipboard_of_def split: option.splits sum.splits intro!: stored_chunks_cong)

text \<open>The invariant survives a higher bound and new chunks of a version below it.\<close>

lemma store_inv_add:
  assumes "store_inv L m n" and "n \<le> n'" and "unat version < n'"
    and "\<And>k. k \<noteq> pendingTxnKey \<Longrightarrow> k \<noteq> versionKey \<Longrightarrow> k \<notin> range (chunk_key version) \<Longrightarrow> m' k = m k"
  shows "store_inv L m' n'"
  unfolding store_inv_def
proof (intro conjI ballI allI impI)
  fix k assume k: "k \<in> dom m'"
  show "k = latestKey \<or> k = versionKey \<or> k = pendingTxnKey \<or> (\<exists>v i. k = chunk_key v i \<and> unat v < n')"
  proof (cases "k = latestKey \<or> k = versionKey \<or> k = pendingTxnKey \<or> k \<in> range (chunk_key version)")
    case True
    with assms(3) show ?thesis by auto
  next
    case False
    with k assms(4) [of k] have "k \<in> dom m" by (auto simp: dom_def)
    with False assms(1) obtain v i where "k = chunk_key v i" "unat v < n" by (auto elim: store_inv_keys)
    with assms(2) show ?thesis using order.strict_trans2 by blast
  qed
next
  fix v assume "m' latestKey = Some v"
  moreover have "m' latestKey = m latestKey" by (rule assms(4)) auto
  ultimately show "\<exists>cb. pb_unmarshal_cb L v = Inr cb \<and> unat (cb_Sequence cb) < n'"
    using assms(1,2) unfolding store_inv_def by (metis order.strict_trans2)
qed

lemma store_inv_mono:
  assumes "store_inv L m n" and "n \<le> n'" and "\<And>k. k \<noteq> versionKey \<Longrightarrow> m' k = m k"
  shows "store_inv L m' n'"
  unfolding store_inv_def
proof (intro conjI ballI allI impI)
  fix k assume k: "k \<in> dom m'"
  show "k = latestKey \<or> k = versionKey \<or> k = pendingTxnKey \<or> (\<exists>v i. k = chunk_key v i \<and> unat v < n')"
  proof (cases "k = versionKey")
    case False
    with k assms(3) [of k] have "k \<in> dom m" by (auto simp: dom_def)
    with assms(1,2) show ?thesis unfolding store_inv_def by (meson order.strict_trans2)
  qed simp
next
  fix v assume "m' latestKey = Some v"
  with assms show "\<exists>cb. pb_unmarshal_cb L v = Inr cb \<and> unat (cb_Sequence cb) < n'"
    unfolding store_inv_def by (metis order.strict_trans2 special_distinct(1))
qed

lemma clipboard_sequence:
  "clipboard_of L m = Some (cb, chunks) \<Longrightarrow> store_inv L m n \<Longrightarrow> unat (cb_Sequence cb) < n"
  by (auto simp: clipboard_of_def store_inv_def split: option.splits sum.splits)

lemma clipboard_None_iff: "store_inv L m n \<Longrightarrow> clipboard_of L m = None \<longleftrightarrow> m latestKey = None"
  by (auto simp: clipboard_of_def store_inv_def split: option.splits sum.splits)

end
