(* ===== verification/Storage_Write.thy ===== *)
theory Storage_Write
  imports Storage_Laws
begin

text \<open>
  The write path of the package \<^verbatim>\<open>storage\<close>: what each step of \<open>WriteBatch\<close> does to the database, under the laws of
  \<^verbatim>\<open>Storage_Laws\<close>.

  \<open>wb_inv V version m0 m st\<close> is the invariant of a copy under way: \<open>m0\<close> is the content before it began and \<open>m\<close> the chunks
  written so far; database and pending batch together hold \<open>m0 ++ m\<close>, and nothing but chunks of the new version is
  pending. \<open>wb_safe\<close> is what remains true after a failure: outside the chunks of the new version the database is as
  it was. The entry \<^verbatim>\<open>PENDING\<close>, which \<open>lockVersion\<close> and \<open>unlockVersion\<close> rewrite, is left out of both.
\<close>

definition wb_inv ::
  "('d, 't, 'w, 'u) view \<Rightarrow> 64 word \<Rightarrow> (bytes \<rightharpoonup> bytes) \<Rightarrow> (bytes \<rightharpoonup> bytes) \<Rightarrow> ('d, 'u, 'w) batch_state \<Rightarrow> bool" where
  "wb_inv V version m0 m st \<longleftrightarrow> (let live = live V (db_db (fst st)); pend = pend V (bw_WriteBatch (snd st)) in
     dom m \<subseteq> range (chunk_key version) \<and> dom pend \<subseteq> dom m \<and>
     (\<forall>k. k \<noteq> pendingTxnKey \<longrightarrow> (live ++ pend) k = (m0 ++ m) k))"

definition wb_safe :: "('d, 't, 'w, 'u) view \<Rightarrow> 64 word \<Rightarrow> (bytes \<rightharpoonup> bytes) \<Rightarrow> ('d, 'u, 'w) batch_state \<Rightarrow> bool" where
  "wb_safe V version m0 st \<longleftrightarrow>
     (\<forall>k. k \<noteq> pendingTxnKey \<longrightarrow> k \<notin> range (chunk_key version) \<longrightarrow> live V (db_db (fst st)) k = m0 k)"

text \<open>What a step leaves alone.\<close>

definition frame :: "('d, 't, 'w, 'u) view \<Rightarrow> ('d, 'u, 'w) batch_state \<Rightarrow> ('d, 'u, 'w) batch_state \<Rightarrow> bool" where
  "frame V st st' \<longleftrightarrow>
     nxt V (db_db (fst st')) = nxt V (db_db (fst st)) \<and> db_chunkSize (fst st') = db_chunkSize (fst st) \<and>
     db_valueLogFileSize (fst st') = db_valueLogFileSize (fst st) \<and> db_config (fst st') = db_config (fst st) \<and>
     bw_version (snd st') = bw_version (snd st)"

text \<open>A call comes back, unless a library panics in it.\<close>

definition settles :: "'a result \<Rightarrow> bool" where
  "settles r \<longleftrightarrow> returns r \<or> r = Panic LibraryPanic"

lemma settles_simps [simp]:
  "settles (Ok x)" "settles (Err e)" "settles (Panic p) \<longleftrightarrow> p = LibraryPanic" "\<not> settles Loop"
  "settles (lift_err err)"
  by (auto simp: settles_def lift_err_def split: option.splits)

definition step_ok ::
  "('d, 't, 'w, 'u) view \<Rightarrow> 64 word \<Rightarrow> (bytes \<rightharpoonup> bytes) \<Rightarrow> ('d, 'u, 'w) batch_state \<Rightarrow> (bytes \<rightharpoonup> bytes) \<Rightarrow>
     'a result \<times> ('d, 'u, 'w) batch_state \<Rightarrow> bool" where
  "step_ok V version m0 st m rs \<longleftrightarrow>
     settles (fst rs) \<and> frame V st (snd rs) \<and> db_entropy (fst (snd rs)) = db_entropy (fst st) \<and>
     wb_safe V version m0 (snd rs) \<and>
     (\<forall>x. fst rs = Ok x \<longrightarrow> wb_inv V version m0 m (snd rs))"

lemma frame_refl [simp]: "frame V st st"
  by (simp add: frame_def)

lemma frame_trans: "frame V a b \<Longrightarrow> frame V b c \<Longrightarrow> frame V a c"
  by (simp add: frame_def)

lemma wb_inv_safe:
  assumes "wb_inv V version m0 m st"
  shows "wb_safe V version m0 st"
  unfolding wb_safe_def
proof (intro allI impI)
  fix k
  assume k: "k \<noteq> pendingTxnKey" "k \<notin> range (chunk_key version)"
  with assms have "k \<notin> dom m" "k \<notin> dom (pend V (bw_WriteBatch (snd st)))"
    unfolding wb_inv_def Let_def by blast+
  then have "m k = None" "pend V (bw_WriteBatch (snd st)) k = None" by blast+
  moreover have "(live V (db_db (fst st)) ++ pend V (bw_WriteBatch (snd st))) k = (m0 ++ m) k"
    using assms k(1) by (simp add: wb_inv_def Let_def)
  ultimately show "live V (db_db (fst st)) k = m0 k"
    by (simp add: map_add_def)
qed

lemma step_ok_Ok: "wb_inv V version m0 m st \<Longrightarrow> step_ok V version m0 st m (Ok x, st)"
  by (simp add: step_ok_def wb_inv_safe)

lemma step_ok_and_then:
  assumes "step_ok V version m0 st m1 rs"
    and "\<And>x st1. rs = (Ok x, st1) \<Longrightarrow> wb_inv V version m0 m1 st1 \<Longrightarrow> step_ok V version m0 st1 m2 (f x st1)"
  shows "step_ok V version m0 st m2 (and_then rs f)"
proof -
  obtain r st1 where rs: "rs = (r, st1)" by (metis prod.collapse)
  show ?thesis
  proof (cases r)
    case (Ok x)
    with rs assms(1) have "wb_inv V version m0 m1 st1" "frame V st st1"
      "db_entropy (fst st1) = db_entropy (fst st)" by (auto simp: step_ok_def)
    with assms(2) rs Ok show ?thesis by (auto simp: step_ok_def intro: frame_trans)
  qed (use assms(1) rs in \<open>simp_all add: step_ok_def\<close>)
qed

subsection \<open>lockVersion, unlockVersion\<close>

definition only_pending :: "('d, 't, 'w, 'u) view \<Rightarrow> ('t \<Rightarrow> unit result \<times> 't) \<Rightarrow> bool" where
  "only_pending V fn \<longleftrightarrow> (\<forall>t r t'. fn t = (r, t') \<longrightarrow> settles r \<and> base V t' = base V t \<and>
     (\<forall>k. k \<noteq> pendingTxnKey \<longrightarrow> seen V t' k = seen V t k))"

lemma only_pendingI:
  assumes "\<And>t. settles (fst (fn t)) \<and> base V (snd (fn t)) = base V t \<and>
     (\<forall>k. k \<noteq> pendingTxnKey \<longrightarrow> seen V (snd (fn t)) k = seen V t k)"
  shows "only_pending V fn"
  unfolding only_pending_def using assms by (metis fst_conv snd_conv)

lemma store_lt_only_pending: "lib_laws L V \<Longrightarrow> only_pending V (\<lambda>t. store_lt L t m)"
  by (rule only_pendingI)
     (auto simp: store_lt_def split: sum.splits prod.splits dest!: lib_laws_set)

lemma store_lt_frame:
  assumes "lib_laws L V"
  shows "settles (fst (store_lt L t m))" and "base V (snd (store_lt L t m)) = base V t"
    and "k \<noteq> pendingTxnKey \<Longrightarrow> seen V (snd (store_lt L t m)) k = seen V t k"
  using store_lt_only_pending [OF assms, of m] unfolding only_pending_def
  by (metis prod.collapse)+

lemma and_then_store_lt:
  assumes "lib_laws L V" and "settles r"
  shows "settles (fst (and_then (r, t) (\<lambda>m t. store_lt L t (g m)))) \<and>
    base V (snd (and_then (r, t) (\<lambda>m t. store_lt L t (g m)))) = base V t \<and>
    (\<forall>k. k \<noteq> pendingTxnKey \<longrightarrow> seen V (snd (and_then (r, t) (\<lambda>m t. store_lt L t (g m)))) k = seen V t k)"
  using assms store_lt_frame [OF assms(1)] by (cases r) auto

lemma settles_lift_sum [simp]: "settles (lift_sum x)" "settles (bind_result (lift_sum x) (\<lambda>v. lift_sum (g v)))"
  by (auto simp: lift_sum_def split: sum.splits)

lemma lock_txn_only_pending: "lib_laws L V \<Longrightarrow> only_pending V (lock_txn L version)"
  by (rule only_pendingI)
     (auto simp: lock_txn_def Let_def simp del: and_then.simps split: sum.splits intro!: and_then_store_lt)

lemma unlock_txn_only_pending: "lib_laws L V \<Longrightarrow> only_pending V (unlock_txn L version)"
proof (rule only_pendingI)
  fix t
  assume L: "lib_laws L V"
  show "settles (fst (unlock_txn L version t)) \<and> base V (snd (unlock_txn L version t)) = base V t \<and>
     (\<forall>k. k \<noteq> pendingTxnKey \<longrightarrow> seen V (snd (unlock_txn L version t)) k = seen V t k)"
  proof (cases "bg_get L t pendingTxnKey")
    case (Inr item)
    then show ?thesis
      unfolding unlock_txn_def
      by (simp only: sum.case) (rule and_then_store_lt [OF L], simp)
  qed (simp add: unlock_txn_def)
qed

lemma db_Update_only_pending:
  assumes "lib_laws L V" and "only_pending V fn" and "db_Update L fn d = (r, d')"
  shows "settles r \<and> nxt V d' = nxt V d \<and> (\<forall>k. k \<noteq> pendingTxnKey \<longrightarrow> live V d' k = live V d k)"
proof -
  obtain r1 t1 where fn: "fn (bg_txn L d) = (r1, t1)" by fastforce
  with assms(1,2) have t1: "settles r1" "base V t1 = live V d" "\<And>k. k \<noteq> pendingTxnKey \<Longrightarrow> seen V t1 k = live V d k"
    by (auto simp: only_pending_def lib_laws_txn(1,2))
  obtain e d1 where c: "bg_commit L t1 d = (e, d1)" by fastforce
  from lib_laws_commit [OF assms(1) c t1(2)] t1 fn c assms(3) show ?thesis
    by (auto simp: db_Update_def split: result.splits if_splits)
qed

lemma wb_inv_quiet:
  assumes "wb_inv V version m0 m st" and "\<And>k. k \<noteq> pendingTxnKey \<Longrightarrow> live V (db_db (fst st')) k = live V (db_db (fst st)) k"
    and "pend V (bw_WriteBatch (snd st')) = pend V (bw_WriteBatch (snd st))"
  shows "wb_inv V version m0 m st'"
proof -
  have "(live V (db_db (fst st')) ++ p) k = (live V (db_db (fst st)) ++ p) k" if "k \<noteq> pendingTxnKey" for p k
    using assms(2) [OF that] by (simp add: map_add_def split: option.split)
  with assms(1,3) show ?thesis by (simp add: wb_inv_def Let_def)
qed

lemma lockVersion_step:
  assumes "lib_laws L V" and "wb_inv V version m0 m st"
  shows "step_ok V version m0 st m (lockVersion L st)"
proof -
  obtain b bw where st: "st = (b, bw)" by fastforce
  show ?thesis
  proof (cases "bw_once bw")
    case True
    with st assms(2) show ?thesis by (simp add: lockVersion_def step_ok_Ok)
  next
    case False
    obtain r d where u: "db_Update L (lock_txn L (bw_version bw)) (db_db b) = (r, d)" by fastforce
    note q = db_Update_only_pending [OF assms(1) lock_txn_only_pending [OF assms(1)] u]
    let ?st = "(b\<lparr>db_db := d\<rparr>, bw\<lparr>bw_once := True\<rparr>)"
    have "wb_inv V version m0 m ?st"
      by (rule wb_inv_quiet [OF assms(2)]) (use q st in auto)
    with q st False u show ?thesis
      by (simp add: lockVersion_def step_ok_def frame_def wb_inv_safe)
  qed
qed

subsection \<open>Batches\<close>

lemma wb_inv_committed:
  assumes "wb_inv V version m0 m st"
    and "live V (db_db (fst st')) = live V (db_db (fst st)) ++ pend V (bw_WriteBatch (snd st))"
  shows "wb_safe V version m0 st'"
    and "pend V (bw_WriteBatch (snd st')) = Map.empty \<Longrightarrow> wb_inv V version m0 m st'"
proof -
  have *: "wb_inv V version m0 m (fst st', (snd st)\<lparr>bw_WriteBatch := w\<rparr>)" if "pend V w = Map.empty" for w
    using assms that by (simp add: wb_inv_def Let_def)
  show "wb_safe V version m0 st'"
    using wb_inv_safe [OF assms(1)] assms by (auto simp: wb_safe_def wb_inv_def Let_def map_add_def split: option.splits)
  show "pend V (bw_WriteBatch (snd st')) = Map.empty \<Longrightarrow> wb_inv V version m0 m st'"
    using assms by (simp add: wb_inv_def Let_def)
qed

lemma batch_Flush_step:
  assumes "lib_laws L V" and "wb_inv V version m0 m st"
  shows "step_ok V version m0 st m (batch_Flush L st)"
proof -
  obtain b bw where st: "st = (b, bw)" by fastforce
  obtain e w d where f: "bg_flush L (bw_WriteBatch bw) (db_db b) = (e, w, d)" by (metis prod_cases3)
  note q = lib_laws_flush [OF assms(1) f]
  let ?st = "(b\<lparr>db_db := d\<rparr>, bw\<lparr>bw_WriteBatch := w\<rparr>)"
  have "wb_safe V version m0 ?st \<and> (e = None \<longrightarrow> wb_inv V version m0 m ?st)"
  proof (cases e)
    case None
    with q st wb_inv_committed [OF assms(2), of ?st] show ?thesis by simp
  next
    case (Some x)
    with q st wb_inv_safe [OF assms(2)] show ?thesis by (simp add: wb_safe_def)
  qed
  with q st f show ?thesis
    by (auto simp: batch_Flush_def step_ok_def frame_def)
qed

lemma batch_Flush_empty:
  "lib_laws L V \<Longrightarrow> batch_Flush L st = (Ok u, st') \<Longrightarrow> pend V (bw_WriteBatch (snd st')) = Map.empty"
  by (auto simp: batch_Flush_def split: prod.splits dest: lib_laws_flush)

lemma Validate_step:
  assumes "lib_laws L V" and "wb_inv V version m0 m st"
  shows "step_ok V version m0 st m (Validate L k v st)"
proof -
  obtain b bw where st: "st = (b, bw)" by fastforce
  let ?bw = "bw\<lparr>bw_batchSize := bw_batchSize bw + estimateEntrySize k v\<rparr>"
  have inv: "wb_inv V version m0 m (b, ?bw)"
    using assms(2) st by (simp add: wb_inv_def)
  have fr: "step_ok V version m0 (b, ?bw) m rs \<Longrightarrow> step_ok V version m0 st m rs" for rs :: "'x result \<times> _"
    using st by (simp add: step_ok_def frame_def)
  show ?thesis
  proof (cases "db_valueLogFileSize b < bw_batchSize ?bw")
    case False
    with st fr [OF step_ok_Ok [OF inv]] show ?thesis by (simp add: Validate_def)
  next
    case True
    have "step_ok V version m0 (b, ?bw) m
        (and_then (lockVersion L (b, ?bw)) (\<lambda>_ st1. and_then (batch_Flush L st1) (\<lambda>_ (b2, bw2).
             (Ok (), b2, bw2\<lparr>bw_WriteBatch := bg_new_batch L (db_db b2), bw_batchSize := 0\<rparr>))))"
    proof (rule step_ok_and_then [OF lockVersion_step [OF assms(1) inv]], rule step_ok_and_then [OF batch_Flush_step [OF assms(1)]])
      fix st1 u st2
      assume f: "batch_Flush L st1 = (Ok u, st2)" and st2: "wb_inv V version m0 m st2"
      have "wb_inv V version m0 m
          (fst st2, (snd st2)\<lparr>bw_WriteBatch := bg_new_batch L (db_db (fst st2)), bw_batchSize := 0\<rparr>)"
        by (rule wb_inv_quiet [OF st2]) (simp_all add: assms(1) batch_Flush_empty [OF assms(1) f])
      then show "step_ok V version m0 st2 m (case st2 of (b2, bw2) \<Rightarrow>
             (Ok (), b2, bw2\<lparr>bw_WriteBatch := bg_new_batch L (db_db b2), bw_batchSize := 0\<rparr>))"
        by (cases st2) (simp add: step_ok_def frame_def wb_inv_safe)
    qed
    with True st fr show ?thesis by (simp add: Validate_def)
  qed
qed

lemma SetEntry_chunk_step:
  assumes "lib_laws L V" and "wb_inv V version m0 m st" and "k = chunk_key version i"
  shows "step_ok V version m0 st (m(k \<mapsto> v)) (batch_SetEntry L k v None st)"
proof -
  obtain b bw where st: "st = (b, bw)" by fastforce
  obtain e w d where f: "bg_set_entry L (bw_WriteBatch bw) (db_db b) k v None = (e, w, d)" by (metis prod_cases3)
  let ?st = "(b\<lparr>db_db := d\<rparr>, bw\<lparr>bw_WriteBatch := w\<rparr>)"
  note q = lib_laws_set_entry [OF assms(1) f]
  have safe: "wb_safe V version m0 ?st"
    using q st wb_inv_safe [OF assms(2)] wb_inv_committed(1) [OF assms(2), of ?st]
    by (auto simp: wb_safe_def)
  have "wb_inv V version m0 (m(k \<mapsto> v)) ?st" if "e = None"
  proof -
    let ?l = "live V (db_db b)" and ?p = "pend V (bw_WriteBatch bw)"
    have old: "dom m \<subseteq> range (chunk_key version)" "dom ?p \<subseteq> dom m"
      "\<And>k'. k' \<noteq> pendingTxnKey \<Longrightarrow> (?l ++ ?p) k' = (m0 ++ m) k'"
      using assms(2) st by (simp_all add: wb_inv_def Let_def)
    from lib_laws_set_entry_ok [OF assms(1) f [unfolded that]]
    have "live V d ++ pend V w = (?l ++ ?p)(k \<mapsto> v)" and "dom (pend V w) \<subseteq> insert k (dom ?p)"
      by (auto simp: alive_def)
    moreover have "dom (m(k \<mapsto> v)) \<subseteq> range (chunk_key version)" using old(1) assms(3) by simp
    moreover have "dom (pend V w) \<subseteq> dom (m(k \<mapsto> v))" using calculation(2) old(2) by auto
    ultimately show ?thesis using old(3) by (simp add: wb_inv_def Let_def)
  qed
  with safe q st f show ?thesis
    by (simp add: batch_SetEntry_def step_ok_def frame_def)
qed

text \<open>One chunk, under a key that is new and larger than the ones before.\<close>

lemma put_chunk_step:
  assumes "lib_laws L V" and "wb_inv V version m0 m st" and "put_chunk L version v st = (r, st')"
  shows "settles r" and "frame V st st'" and "wb_safe V version m0 st'"
    and "r = Ok x \<Longrightarrow> \<exists>i. length i = ulid_size \<and> last_id V (db_entropy (fst st)) < i \<and>
      last_id V (db_entropy (fst st')) = i \<and> wb_inv V version m0 (m(chunk_key version i \<mapsto> v)) st'"
proof -
  obtain b bw where st: "st = (b, bw)" by fastforce
  obtain y u where n: "ulid_new L (db_entropy b) = (y, u)" by fastforce
  let ?st = "(b\<lparr>db_entropy := u\<rparr>, bw)"
  have inv: "wb_inv V version m0 m ?st" and fr: "frame V st ?st"
    using assms(2) st by (simp_all add: wb_inv_def frame_def)
  have "settles r \<and> frame V st st' \<and> wb_safe V version m0 st' \<and> (r = Ok x \<longrightarrow>
      (\<exists>i. length i = ulid_size \<and> last_id V (db_entropy (fst st)) < i \<and>
      last_id V (db_entropy (fst st')) = i \<and> wb_inv V version m0 (m(chunk_key version i \<mapsto> v)) st'))"
  proof (cases y)
    case (Inl e)
    with assms(3) st n inv fr show ?thesis
      by (auto simp: put_chunk_def mustNewULID_def wb_inv_safe)
  next
    case (Inr i)
    let ?k = "chunk_key version i"
    have "step_ok V version m0 ?st (m(?k \<mapsto> v))
        (and_then (Validate L ?k v ?st) (\<lambda>_ st2. batch_SetEntry L ?k v None st2))"
      by (rule step_ok_and_then [OF Validate_step [OF assms(1) inv]])
         (rule SetEntry_chunk_step [OF assms(1) _ refl])
    moreover have "(r, st') = and_then (Validate L ?k v ?st) (\<lambda>_ st2. batch_SetEntry L ?k v None st2)"
      using assms(3) st n Inr by (simp add: put_chunk_def mustNewULID_def)
    ultimately have "step_ok V version m0 ?st (m(?k \<mapsto> v)) (r, st')" by simp
    with lib_laws_ulid [OF assms(1) n [unfolded Inr]] st fr show ?thesis
      by (auto simp: step_ok_def intro: frame_trans)
  qed
  then show "settles r" "frame V st st'" "wb_safe V version m0 st'"
    "r = Ok x \<Longrightarrow> \<exists>i. length i = ulid_size \<and> last_id V (db_entropy (fst st)) < i \<and>
      last_id V (db_entropy (fst st')) = i \<and> wb_inv V version m0 (m(chunk_key version i \<mapsto> v)) st'"
    by auto
qed

subsection \<open>The chunks of a copy\<close>

definition entries :: "64 word \<Rightarrow> bytes list \<Rightarrow> bytes list \<Rightarrow> bytes \<rightharpoonup> bytes" where
  "entries version ids cs = map_of (zip (map (chunk_key version) ids) cs)"

definition ids_ok :: "bytes \<Rightarrow> bytes list \<Rightarrow> bool" where
  "ids_ok l ids \<longleftrightarrow> sorted_wrt (<) (l # ids) \<and> (\<forall>i \<in> set ids. length i = ulid_size)"

lemma dom_entries: "length ids = length cs \<Longrightarrow> dom (entries version ids cs) = chunk_key version ` set ids"
  by (simp add: entries_def)

lemma ids_ok_keys:
  assumes "ids_ok l ids"
  shows "sorted_wrt (<) (map (chunk_key version) ids)"
  unfolding sorted_wrt_map
  by (rule sorted_wrt_mono_rel [of ids "(<)"]) (use assms in \<open>auto simp: ids_ok_def chunk_key_less\<close>)

lemma ids_ok_Cons: "ids_ok l (i # ids) \<longleftrightarrow> l < i \<and> length i = ulid_size \<and> ids_ok i ids"
proof -
  have "\<forall>x \<in> set ids. l < x" if "l < i" "\<forall>x \<in> set ids. i < x"
    using that less_trans [of l i] by simp
  then show ?thesis unfolding ids_ok_def by auto
qed

lemma entries_Cons:
  assumes "ids_ok l (i # ids)" and "length ids = length cs"
  shows "m ++ entries version (i # ids) (c # cs) = m(chunk_key version i \<mapsto> c) ++ entries version ids cs"
proof -
  have "chunk_key version i \<notin> chunk_key version ` set ids"
    using ids_ok_keys [OF assms(1), of version] by auto
  then have "chunk_key version i \<notin> dom (entries version ids cs)"
    using assms(2) by (simp add: dom_entries)
  then show ?thesis
    by (auto simp: entries_def fun_eq_iff map_add_def dom_def split: option.splits)
qed

lemma map_the_map_of_zip:
  "length ks = length cs \<Longrightarrow> distinct ks \<Longrightarrow> map (\<lambda>k. the (map_of (zip ks cs) k)) ks = cs"
  by (rule nth_equalityI) (simp_all add: map_of_zip_nth)

text \<open>A version whose only chunks are such entries stores exactly the given chunks, in their order.\<close>

lemma stored_chunks_entries:
  assumes "ids_ok l ids" and "length ids = length cs"
    and "\<And>k. prefix (index_prefix version) k \<Longrightarrow> m k = entries version ids cs k"
  shows "stored_chunks m version = cs"
proof -
  let ?ks = "map (chunk_key version) ids"
  have s: "sorted_wrt (<) ?ks" by (rule ids_ok_keys [OF assms(1)])
  have "{k \<in> dom (entries version ids cs). prefix (index_prefix version) k \<and> suffix chunkSuffix k} = set ?ks"
    using assms(2) by (auto simp: dom_entries)
  moreover have "sorted_list_of_set (set ?ks) = ?ks"
    using sorted_list_of_set.idem_if_sorted_distinct [of ?ks] s by (simp only: strict_sorted_iff)
  moreover have "map (\<lambda>k. the (entries version ids cs k)) ?ks = cs"
    using map_the_map_of_zip [of ?ks cs] s assms(2) by (simp add: entries_def strict_sorted_iff del: map_map)
  ultimately have "stored_chunks (entries version ids cs) version = cs"
    by (simp add: stored_chunks_def del: map_map)
  with stored_chunks_cong [of version m "entries version ids cs"] assms(3) show ?thesis by simp
qed

subsection \<open>The index entry\<close>

lemma SetEntry_latest:
  assumes "lib_laws L V" and "wb_inv V version m0 m st" and "batch_SetEntry L latestKey v (Some ttl) st = (r, st')"
  shows "settles r" and "frame V st st'" and "wb_safe V version m0 st'"
    and "r = Ok u \<Longrightarrow> alive (Some ttl) \<Longrightarrow> k \<noteq> pendingTxnKey \<Longrightarrow>
      (live V (db_db (fst st')) ++ pend V (bw_WriteBatch (snd st'))) k = ((m0 ++ m)(latestKey \<mapsto> v)) k"
proof -
  obtain b bw where st: "st = (b, bw)" by fastforce
  obtain e w d where f: "bg_set_entry L (bw_WriteBatch bw) (db_db b) latestKey v (Some ttl) = (e, w, d)"
    by (metis prod_cases3)
  note q = lib_laws_set_entry [OF assms(1) f]
  have st': "r = lift_err e" "st' = (b\<lparr>db_db := d\<rparr>, bw\<lparr>bw_WriteBatch := w\<rparr>)"
    using assms(3) st f by (auto simp: batch_SetEntry_def)
  show "settles r" "frame V st st'" using st st' q by (simp_all add: frame_def)
  show "wb_safe V version m0 st'"
    using q st st' wb_inv_safe [OF assms(2)] wb_inv_committed(1) [OF assms(2), of st']
    by (auto simp: wb_safe_def)
  assume r: "r = Ok u" "alive (Some ttl)" "k \<noteq> pendingTxnKey"
  with f st' have "bg_set_entry L (bw_WriteBatch bw) (db_db b) latestKey v (Some ttl) = (None, w, d)" by simp
  from lib_laws_set_entry_ok [OF assms(1) this r(2)]
  have "live V d ++ pend V w = (live V (db_db b) ++ pend V (bw_WriteBatch bw))(latestKey \<mapsto> v)" by auto
  with assms(2) r(3) st st' show "(live V (db_db (fst st')) ++ pend V (bw_WriteBatch (snd st'))) k =
      ((m0 ++ m)(latestKey \<mapsto> v)) k"
    by (simp add: wb_inv_def Let_def)
qed

lemma put_latest_spec:
  assumes "lib_laws L V" and "wb_inv V version m0 m st" and "put_latest L cb ttl st = (r, st')"
  shows "settles r" and "frame V st st'" and "(\<forall>u. r \<noteq> Ok u) \<Longrightarrow> wb_safe V version m0 st'"
    and "r = Ok u \<Longrightarrow> alive (Some ttl) \<Longrightarrow> \<exists>v. pb_marshal_cb L cb = Inr v \<and>
      (\<forall>k. k \<noteq> pendingTxnKey \<longrightarrow> live V (db_db (fst st')) k = ((m0 ++ m)(latestKey \<mapsto> v)) k)"
proof -
  have "settles r \<and> frame V st st' \<and> ((\<forall>u. r \<noteq> Ok u) \<longrightarrow> wb_safe V version m0 st') \<and>
    (r = Ok () \<longrightarrow> alive (Some ttl) \<longrightarrow> (\<exists>v. pb_marshal_cb L cb = Inr v \<and>
      (\<forall>k. k \<noteq> pendingTxnKey \<longrightarrow> live V (db_db (fst st')) k = ((m0 ++ m)(latestKey \<mapsto> v)) k)))"
  proof (cases "pb_marshal_cb L cb")
    case (Inl e)
    with assms show ?thesis by (auto simp: put_latest_def wb_inv_safe)
  next
    case (Inr v)
    obtain r1 st1 where v: "Validate L latestKey v st = (r1, st1)" by (metis prod.collapse)
    have s1: "settles r1" "frame V st st1" "wb_safe V version m0 st1" "r1 = Ok () \<Longrightarrow> wb_inv V version m0 m st1"
      using Validate_step [OF assms(1,2), of latestKey v] v by (simp_all add: step_ok_def)
    show ?thesis
    proof (cases "r1 = Ok ()")
      case False
      with Inr v s1 assms(3) show ?thesis by (cases r1) (auto simp: put_latest_def)
    next
      case True
      obtain r2 st2 where e: "batch_SetEntry L latestKey v (Some ttl) st1 = (r2, st2)" by (metis prod.collapse)
      note s2 = SetEntry_latest [OF assms(1) s1(4) [OF True] e]
      show ?thesis
      proof (cases "r2 = Ok ()")
        case False
        with Inr v e True s1(2) s2(1-3) assms(3) show ?thesis
          by (cases r2) (auto simp: put_latest_def intro: frame_trans)
      next
        case ok: True
        obtain b bw where st2: "st2 = (b, bw)" by fastforce
        obtain x w d where f: "bg_flush L (bw_WriteBatch bw) (db_db b) = (x, w, d)" by (metis prod_cases3)
        have st': "r = lift_err x" "st' = (b\<lparr>db_db := d\<rparr>, bw\<lparr>bw_WriteBatch := w\<rparr>)"
          using assms(3) Inr v True e ok st2 f by (auto simp: put_latest_def batch_Flush_def)
        have "frame V st2 st'" using lib_laws_flush [OF assms(1) f] st2 st' by (simp add: frame_def)
        with s1(2) s2(2) have "frame V st st'" by (blast intro: frame_trans)
        with lib_laws_flush [OF assms(1) f] st2 st' s2(3,4) ok Inr show ?thesis
          by (auto simp: wb_safe_def)
      qed
    qed
  qed
  then show "settles r" "frame V st st'" "(\<forall>u. r \<noteq> Ok u) \<Longrightarrow> wb_safe V version m0 st'"
    "r = Ok u \<Longrightarrow> alive (Some ttl) \<Longrightarrow> \<exists>v. pb_marshal_cb L cb = Inr v \<and>
      (\<forall>k. k \<noteq> pendingTxnKey \<longrightarrow> live V (db_db (fst st')) k = ((m0 ++ m)(latestKey \<mapsto> v)) k)"
    by auto
qed

lemma Release_quiet:
  assumes "lib_laws L V" and "Release L st = (r, st')"
  shows "frame V st st'" and "k \<noteq> pendingTxnKey \<Longrightarrow> live V (db_db (fst st')) k = live V (db_db (fst st)) k"
proof -
  obtain b bw where st: "st = (b, bw)" by fastforce
  obtain r1 d where u: "db_Update L (unlock_txn L (bw_version bw)) (bg_cancel L (bw_WriteBatch bw) (db_db b)) = (r1, d)"
    by fastforce
  note q = db_Update_only_pending [OF assms(1) unlock_txn_only_pending [OF assms(1)] u]
  from q u st assms show "frame V st st'"
    and "k \<noteq> pendingTxnKey \<Longrightarrow> live V (db_db (fst st')) k = live V (db_db (fst st)) k"
    by (auto simp: Release_def unlockVersion_def frame_def)
qed

subsection \<open>The loop\<close>

context stream_reader
begin

definition loop_post ::
  "('d, 't, 'w, 'u) view \<Rightarrow> 64 word \<Rightarrow> (bytes \<rightharpoonup> bytes) \<Rightarrow> (bytes \<rightharpoonup> bytes) \<Rightarrow> nat \<Rightarrow> nat \<Rightarrow> 'r \<Rightarrow> ('d, 'u, 'w) batch_state \<Rightarrow>
     nat result \<times> 'r \<times> ('d, 'u, 'w) batch_state \<Rightarrow> bool" where
  "loop_post V version m0 m N written r st x \<longleftrightarrow> (let (res, r', st') = x in
     settles res \<and> frame V st st' \<and> wb_safe V version m0 st' \<and>
     (\<not> errors_is (fin r) EOF \<longrightarrow> (\<forall>n. res \<noteq> Ok n)) \<and>
     (\<forall>n. res = Ok n \<longrightarrow> (\<exists>m'. wb_inv V version m0 m' st')) \<and>
     (\<forall>n. res = Ok n \<longrightarrow> fin r = EOF \<longrightarrow> n = written + length (dat r) \<and> Checksum r' = fin_sum r \<and>
       (\<exists>ids. ids_ok (last_id V (db_entropy (fst st))) ids \<and> length ids = length (blocks N (dat r)) \<and>
         wb_inv V version m0 (m ++ entries version ids (blocks N (dat r))) st')))"

lemma loop_post_Cons:
  assumes "loop_post V version m0 (m(chunk_key version i \<mapsto> c)) N (written + N) r1 st1 (res', r', st')"
    and "frame V st st1" and "last_id V (db_entropy (fst st)) < i" and "last_id V (db_entropy (fst st1)) = i"
    and "length i = ulid_size" and "dat r1 = drop N (dat r)" and "fin r1 = fin r" and "fin_sum r1 = fin_sum r"
    and "c = take N (dat r)" and "0 < N" and "N \<le> length (dat r)"
  shows "loop_post V version m0 m N written r st (res', r', st')"
proof -
  have bl: "blocks N (dat r) = c # blocks N (dat r1)" using assms by (simp add: blocks_step)
  have "\<exists>ids. ids_ok (last_id V (db_entropy (fst st))) ids \<and> length ids = length (blocks N (dat r)) \<and>
      wb_inv V version m0 (m ++ entries version ids (blocks N (dat r))) st'"
    if ids: "ids_ok i ids" "length ids = length (blocks N (dat r1))"
      "wb_inv V version m0 (m(chunk_key version i \<mapsto> c) ++ entries version ids (blocks N (dat r1))) st'" for ids
    using ids assms(3,5) entries_Cons [of "last_id V (db_entropy (fst st))" i ids]
    by (intro exI [of _ "i # ids"]) (simp add: bl ids_ok_Cons)
  with assms show ?thesis
    by (auto simp: loop_post_def intro: frame_trans)
qed

lemma batch_loop_spec:
  assumes "lib_laws L V" and "inv r" and "0 < length buf" and "wb_inv V version m0 m st"
  shows "\<exists>x. batch_loop L Read version written buf r st = Some x \<and>
    loop_post V version m0 m (length buf) written r st x"
  using assms(2-4)
proof (induction "length (dat r)" arbitrary: r buf written st m rule: less_induct)
  case less
  show ?case
  proof (cases "length buf \<le> length (dat r)")
    case True
    let ?N = "length buf" and ?c = "take (length buf) (dat r)"
    obtain r1 where rd: "Read r buf = (Ok (?N, None), ?c, r1)" "inv r1" "dat r1 = drop ?N (dat r)"
      "fin r1 = fin r" "fin_sum r1 = fin_sum r"
      using Read_full [OF less.prems(1,2) True] by blast
    obtain res st1 where p: "put_chunk L version ?c st = (res, st1)" by (metis prod.collapse)
    note step = put_chunk_step [OF assms(1) less.prems(3) p]
    have c: "take ?N ?c = ?c" "length ?c = ?N" using True by auto
    show ?thesis
    proof (cases res)
      case (Ok u)
      then obtain i where i: "length i = ulid_size" "last_id V (db_entropy (fst st)) < i"
        "last_id V (db_entropy (fst st1)) = i" "wb_inv V version m0 (m(chunk_key version i \<mapsto> ?c)) st1"
        using step(4) by blast
      have "length (dat r1) < length (dat r)" "0 < length ?c"
        using rd(3) True less.prems(2) by (auto intro: diff_less)
      from less.hyps [OF this(1) rd(2) this(2) i(4), of "written + ?N"] obtain res' r' st' where
        IH: "batch_loop L Read version (written + ?N) ?c r1 st1 = Some (res', r', st')"
          "loop_post V version m0 (m(chunk_key version i \<mapsto> ?c)) ?N (written + ?N) r1 st1 (res', r', st')"
        using c(2) by auto
      have "batch_loop L Read version written buf r st = Some (res', r', st')"
        using rd(1) p Ok c IH(1) by (subst batch_loop.simps) simp
      moreover have "loop_post V version m0 m ?N written r st (res', r', st')"
        by (rule loop_post_Cons [OF IH(2) step(2) i(2,3,1) rd(3-5) refl less.prems(2) True])
      ultimately show ?thesis by blast
    next
      case (Err e)
      then show ?thesis
        using rd(1) p c step by (subst batch_loop.simps) (simp add: loop_post_def)
    next
      case (Panic q)
      then show ?thesis
        using rd(1) p c step by (subst batch_loop.simps) (simp add: loop_post_def)
    next
      case Loop
      with step(1) show ?thesis by simp
    qed
  next
    case False
    then have short: "length (dat r) < length buf" by simp
    show ?thesis
    proof (cases "fin r = EOF")
      case True
      then obtain r1 where rd: "Read r buf = (Ok (length (dat r), Some EOF), dat r @ drop (length (dat r)) buf, r1)"
        "Checksum r1 = fin_sum r"
        using Read_eof [OF less.prems(1) short] by blast
      show ?thesis
      proof (cases "dat r = []")
        case nil: True
        with rd True less.prems(3) show ?thesis
          by (subst batch_loop.simps) (auto simp: loop_post_def wb_inv_safe ids_ok_def entries_def)
      next
        case False
        obtain res st1 where p: "put_chunk L version (dat r) st = (res, st1)" by (metis prod.collapse)
        note step = put_chunk_step [OF assms(1) less.prems(3) p]
        have "blocks (length buf) (dat r) = [dat r]" using False short by (simp add: blocks_short)
        with step rd True False p show ?thesis
          by (subst batch_loop.simps)
             (cases res; fastforce simp: loop_post_def ids_ok_Cons ids_ok_def entries_def
                intro!: exI [of _ "[_]"])
      qed
    next
      case False
      then obtain q r1 where rd: "Read r buf = (Ok (0, Some (fin r)), q, r1)"
        using Read_broken [OF less.prems(1) short] by blast
      with False less.prems(3) show ?thesis
        by (subst batch_loop.simps) (cases st; auto simp: loop_post_def wb_inv_safe)
    qed
  qed
qed

text \<open>What follows the loop: the index entry and the flush.\<close>

definition index_step ::
  "('d, 't, 'w, 'u) lib \<Rightarrow> 64 word \<Rightarrow> 64 word \<Rightarrow> clip_header \<Rightarrow> bytes \<Rightarrow> nat \<Rightarrow> ('d, 'u, 'w) batch_state \<Rightarrow>
     nat result \<times> ('d, 'u, 'w) batch_state" where
  "index_step L version ttl h checksum n st =
     and_then (put_latest L (new_clipboard L version ttl h checksum n) ttl st) (\<lambda>_ st'. (Ok n, st'))"

lemma index_step_spec:
  assumes "lib_laws L V" and "wb_inv V version m0 m st" and "index_step L version ttl h checksum n st = (r, st')"
  shows "settles r" and "frame V st st'" and "(\<forall>n. r \<noteq> Ok n) \<Longrightarrow> wb_safe V version m0 st'"
    and "r = Ok n' \<Longrightarrow> n' = n"
    and "r = Ok n' \<Longrightarrow> alive (Some ttl) \<Longrightarrow>
      \<exists>v. pb_marshal_cb L (new_clipboard L version ttl h checksum n) = Inr v \<and>
      (\<forall>k. k \<noteq> pendingTxnKey \<longrightarrow> live V (db_db (fst st')) k = ((m0 ++ m)(latestKey \<mapsto> v)) k)"
proof -
  obtain r1 st1 where p: "put_latest L (new_clipboard L version ttl h checksum n) ttl st = (r1, st1)"
    by (metis prod.collapse)
  note q = put_latest_spec [OF assms(1,2) p]
  show "settles r" "frame V st st'" "(\<forall>n. r \<noteq> Ok n) \<Longrightarrow> wb_safe V version m0 st'" "r = Ok n' \<Longrightarrow> n' = n"
    "r = Ok n' \<Longrightarrow> alive (Some ttl) \<Longrightarrow>
      \<exists>v. pb_marshal_cb L (new_clipboard L version ttl h checksum n) = Inr v \<and>
      (\<forall>k. k \<noteq> pendingTxnKey \<longrightarrow> live V (db_db (fst st')) k = ((m0 ++ m)(latestKey \<mapsto> v)) k)"
    using q p assms(3) by (cases r1; auto simp: index_step_def)+
qed

text \<open>The whole of \<open>WriteBatch\<close>, after the sequence handed out a version.\<close>

lemma WriteBatch_spec:
  assumes "lib_laws L V" and "inv r" and "0 < db_chunkSize b"
    and "bg_seq_next L (db_db b) = (Inr version, d)" and "m0 = live V d"
    and "WriteBatch L Read Checksum b r ttl h = (res, b', r')"
  shows "settles res" and "nxt V (db_db b') = nxt V d" and "db_chunkSize b' = db_chunkSize b"
    and "(\<forall>n. res \<noteq> Ok n) \<Longrightarrow> k \<noteq> pendingTxnKey \<Longrightarrow> k \<notin> range (chunk_key version) \<Longrightarrow> live V (db_db b') k = m0 k"
    and "\<not> errors_is (fin r) EOF \<Longrightarrow> res \<noteq> Ok n"
    and "res = Ok n \<Longrightarrow> fin r = EOF \<Longrightarrow> alive (Some ttl) \<Longrightarrow> n = length (dat r) \<and>
      (\<exists>ids v l. ids_ok l ids \<and> length ids = length (blocks (db_chunkSize b) (dat r)) \<and>
         pb_marshal_cb L (new_clipboard L version ttl h (fin_sum r) n) = Inr v \<and>
         (\<forall>k. k \<noteq> pendingTxnKey \<longrightarrow> live V (db_db b') k =
            ((m0 ++ entries version ids (blocks (db_chunkSize b) (dat r)))(latestKey \<mapsto> v)) k))"
proof -
  let ?b = "b\<lparr>db_db := d\<rparr>"
  let ?st = "(?b, NewBatchWriter L ?b version)"
  let ?buf = "replicate (db_chunkSize b) (0 :: byte)"
  have inv0: "wb_inv V version m0 Map.empty ?st"
    using assms(1,5) by (simp add: wb_inv_def NewBatchWriter_def)
  obtain w r1 st1 where loop: "batch_loop L Read version 0 ?buf r ?st = Some (w, r1, st1)"
    and post: "loop_post V version m0 Map.empty (db_chunkSize b) 0 r ?st (w, r1, st1)"
    using batch_loop_spec [OF assms(1,2) _ inv0, of ?buf 0] assms(3) by (auto simp: )
  obtain st2 where st2: "and_then (w, st1) (index_step L version ttl h (Checksum r1)) = (res, st2)"
    and rel: "b' = fst (snd (Release L st2))"
    using assms(4,6) loop by (auto simp: WriteBatch_def Let_def index_step_def [abs_def] split: prod.splits)
  have "settles res \<and> frame V ?st st2 \<and> ((\<forall>n. res \<noteq> Ok n) \<longrightarrow> wb_safe V version m0 st2) \<and>
      (\<not> errors_is (fin r) EOF \<longrightarrow> res \<noteq> Ok n) \<and>
      (res = Ok n \<longrightarrow> fin r = EOF \<longrightarrow> alive (Some ttl) \<longrightarrow> n = length (dat r) \<and>
      (\<exists>ids v l. ids_ok l ids \<and> length ids = length (blocks (db_chunkSize b) (dat r)) \<and>
         pb_marshal_cb L (new_clipboard L version ttl h (fin_sum r) n) = Inr v \<and>
         (\<forall>k. k \<noteq> pendingTxnKey \<longrightarrow> live V (db_db (fst st2)) k =
            ((m0 ++ entries version ids (blocks (db_chunkSize b) (dat r)))(latestKey \<mapsto> v)) k)))"
  proof (cases w)
    case (Ok n0)
    with st2 have ix: "index_step L version ttl h (Checksum r1) n0 st1 = (res, st2)" by simp
    from post Ok obtain m' where m': "wb_inv V version m0 m' st1" by (auto simp: loop_post_def)
    note ix1 = index_step_spec [OF assms(1) m' ix]
    have fr: "frame V ?st st2" using ix1(2) post by (auto simp: loop_post_def intro: frame_trans)
    have "n = length (dat r) \<and> (\<exists>ids v l. ids_ok l ids \<and> length ids = length (blocks (db_chunkSize b) (dat r)) \<and>
         pb_marshal_cb L (new_clipboard L version ttl h (fin_sum r) n) = Inr v \<and>
         (\<forall>k. k \<noteq> pendingTxnKey \<longrightarrow> live V (db_db (fst st2)) k =
            ((m0 ++ entries version ids (blocks (db_chunkSize b) (dat r)))(latestKey \<mapsto> v)) k))"
      if that: "res = Ok n" "fin r = EOF" "alive (Some ttl)"
    proof -
      from post Ok that(2) obtain ids where ids: "n0 = length (dat r)" "Checksum r1 = fin_sum r"
        "ids_ok (last_id V (db_entropy (fst ?st))) ids" "length ids = length (blocks (db_chunkSize b) (dat r))"
        "wb_inv V version m0 (Map.empty ++ entries version ids (blocks (db_chunkSize b) (dat r))) st1"
        by (auto simp: loop_post_def)
      note ix2 = index_step_spec(4,5) [OF assms(1) ids(5) ix that(1)]
      from ix2(2) [OF that(3)] ix2(1) ids show ?thesis by auto
    qed
    with fr ix1(1,3) post Ok show ?thesis by (auto simp: loop_post_def)
  qed (use st2 post in \<open>auto simp: loop_post_def\<close>)
  note fin = this
  obtain rr st3 where r3: "Release L st2 = (rr, st3)" by (metis prod.collapse)
  note q = Release_quiet [OF assms(1) r3]
  have "frame V ?st st3" using fin q(1) by (blast intro: frame_trans)
  then show "nxt V (db_db b') = nxt V d" and "db_chunkSize b' = db_chunkSize b"
    using rel r3 by (auto simp: frame_def)
  show "settles res" and "\<not> errors_is (fin r) EOF \<Longrightarrow> res \<noteq> Ok n" using fin by auto
  show "(\<forall>n. res \<noteq> Ok n) \<Longrightarrow> k \<noteq> pendingTxnKey \<Longrightarrow> k \<notin> range (chunk_key version) \<Longrightarrow> live V (db_db b') k = m0 k"
    using fin q(2) [of k] rel r3 by (auto simp: wb_safe_def)
  have same: "(\<forall>k. k \<noteq> pendingTxnKey \<longrightarrow> live V (db_db b') k = g k) \<longleftrightarrow>
      (\<forall>k. k \<noteq> pendingTxnKey \<longrightarrow> live V (db_db (fst st2)) k = g k)" for g
    using q(2) rel r3 by auto
  show "res = Ok n \<Longrightarrow> fin r = EOF \<Longrightarrow> alive (Some ttl) \<Longrightarrow> n = length (dat r) \<and>
      (\<exists>ids v l. ids_ok l ids \<and> length ids = length (blocks (db_chunkSize b) (dat r)) \<and>
         pb_marshal_cb L (new_clipboard L version ttl h (fin_sum r) n) = Inr v \<and>
         (\<forall>k. k \<noteq> pendingTxnKey \<longrightarrow> live V (db_db b') k =
            ((m0 ++ entries version ids (blocks (db_chunkSize b) (dat r)))(latestKey \<mapsto> v)) k))"
    unfolding same using fin by blast
qed

text \<open>
  A successful copy replaces the clipboard by exactly the data that was read, cut into blocks of the chunk size; a copy that
  fails, at whatever point, leaves the clipboard as it was. Both keep the invariant of the store.
\<close>

lemma WriteBatch_ok:
  assumes "lib_laws L V" and "db_inv L V b" and "inv r" and "fin r = EOF" and "alive (Some ttl)"
    and "WriteBatch L Read Checksum b r ttl h = (Ok n, b', r')"
  shows "n = length (dat r)" and "db_inv L V b'"
    and "\<exists>version. clipboard_of L (live V (db_db b')) =
      Some (new_clipboard L version ttl h (fin_sum r) n, blocks (db_chunkSize b) (dat r))"
proof -
  let ?cs = "blocks (db_chunkSize b) (dat r)" and ?m = "live V (db_db b)" and ?m' = "live V (db_db b')"
  have N: "0 < db_chunkSize b" using assms(2) by (simp add: db_inv_def)
  obtain version d where s: "bg_seq_next L (db_db b) = (Inr version, d)"
    using assms(6) by (auto simp: WriteBatch_def split: prod.splits sum.splits)
  note seq = lib_laws_seq [OF assms(1) s]
  note w = WriteBatch_spec [OF assms(1,3) N s refl assms(6)]
  from w(6) [OF refl assms(4,5)] obtain ids v l where n: "n = length (dat r)"
    and ids: "ids_ok l ids" "length ids = length ?cs"
    and v: "pb_marshal_cb L (new_clipboard L version ttl h (fin_sum r) n) = Inr v"
    and m': "\<And>k. k \<noteq> pendingTxnKey \<Longrightarrow> ?m' k = ((live V d ++ entries version ids ?cs)(latestKey \<mapsto> v)) k"
    by blast
  show "n = length (dat r)" by (fact n)
  have dom: "dom (entries version ids ?cs) = chunk_key version ` set ids" using ids(2) by (rule dom_entries)
  have cb: "pb_unmarshal_cb L v = Inr (new_clipboard L version ttl h (fin_sum r) n)"
    using lib_laws_pb(1) [OF assms(1) v] .
  have fresh: "?m' k = entries version ids ?cs k" if k: "prefix (index_prefix version) k" for k
  proof -
    have "k \<noteq> versionKey" using k by auto
    then have "live V d k = live V (db_db b) k" by (rule seq(2))
    moreover have "k \<notin> dom (live V (db_db b))"
      using store_inv_version [OF _ _ k] assms(2) seq(3) [of version] by (fastforce simp: db_inv_def)
    ultimately have "live V d k = None" by (simp add: domIff)
    moreover have "k \<noteq> pendingTxnKey" "k \<noteq> latestKey" using k by auto
    ultimately show ?thesis using m' [of k] by (simp add: map_add_def split: option.splits)
  qed
  have latest: "?m' latestKey = Some v" using m' [of latestKey] by simp
  with cb stored_chunks_entries [OF ids fresh]
  show "\<exists>version. clipboard_of L ?m' = Some (new_clipboard L version ttl h (fin_sum r) n, ?cs)"
    by (intro exI [of _ version]) (simp add: clipboard_of_def new_clipboard_def)
  have "store_inv L ?m' (nxt V d)"
    unfolding store_inv_def
  proof (intro conjI ballI allI impI)
    fix k assume k: "k \<in> dom ?m'"
    show "k = latestKey \<or> k = versionKey \<or> k = pendingTxnKey \<or> (\<exists>v i. k = chunk_key v i \<and> unat v < nxt V d)"
    proof (cases "k = latestKey \<or> k = versionKey \<or> k = pendingTxnKey \<or> k \<in> dom (entries version ids ?cs)")
      case True
      with dom seq(3) [of version] show ?thesis by auto
    next
      case False
      with k m' [of k] have "k \<in> dom (live V d)" by (auto simp: map_add_def dom_def)
      with False seq(2) [of k] have "k \<in> dom ?m" by (auto simp: dom_def)
      with False assms(2) seq(1) show ?thesis
        unfolding db_inv_def store_inv_def by (meson order.strict_trans2)
    qed
  next
    fix v' assume "?m' latestKey = Some v'"
    with latest cb seq(3) [of version] show "\<exists>cb'. pb_unmarshal_cb L v' = Inr cb' \<and> unat (cb_Sequence cb') < nxt V d"
      by (auto simp: new_clipboard_def)
  qed
  with N w(2,3) show "db_inv L V b'" by (simp add: db_inv_def)
qed

lemma WriteBatch_failed:
  assumes "lib_laws L V" and "db_inv L V b" and "inv r"
    and "WriteBatch L Read Checksum b r ttl h = (res, b', r')" and "\<And>n. res \<noteq> Ok n"
  shows "settles res" and "db_inv L V b'"
    and "clipboard_of L (live V (db_db b')) = clipboard_of L (live V (db_db b))"
proof -
  let ?m = "live V (db_db b)" and ?m' = "live V (db_db b')"
  have N: "0 < db_chunkSize b" and inv: "store_inv L ?m (nxt V (db_db b))"
    using assms(2) by (simp_all add: db_inv_def)
  have "settles res \<and> db_inv L V b' \<and> clipboard_of L ?m' = clipboard_of L ?m"
  proof (cases "bg_seq_next L (db_db b)")
    case (Pair x d)
    note seq = lib_laws_seq [OF assms(1) Pair]
    show ?thesis
    proof (cases x)
      case (Inl e)
      with Pair assms(4) have "res = Err e" "b' = b\<lparr>db_db := d\<rparr>" by (auto simp: WriteBatch_def)
      moreover have "store_inv L (live V d) (nxt V d)"
        by (rule store_inv_mono [OF inv seq(1)]) (simp add: seq(2))
      moreover have "clipboard_of L (live V d) = clipboard_of L ?m"
        by (rule clipboard_of_cong) (auto intro!: seq(2))
      ultimately show ?thesis using N by (simp add: db_inv_def)
    next
      case (Inr version)
      note w = WriteBatch_spec [OF assms(1,3) N Pair [unfolded Inr] refl assms(4)]
      have v: "nxt V (db_db b) \<le> unat version" "unat version < nxt V d" using seq(3) [OF Inr] by auto
      have same: "?m' k = ?m k"
        if "k \<noteq> pendingTxnKey" "k \<notin> range (chunk_key version)" "k \<noteq> versionKey" for k
        using w(4) [OF _ that(1,2)] assms(5) seq(2) [OF that(3)] by simp
      have "store_inv L ?m' (nxt V d)"
        by (rule store_inv_add [OF inv seq(1) v(2)]) (use same in auto)
      moreover have "clipboard_of L ?m' = clipboard_of L ?m"
      proof (rule clipboard_of_cong)
        show "?m' latestKey = ?m latestKey" by (rule same) auto
        fix cb chunks k
        assume c: "clipboard_of L ?m = Some (cb, chunks)" "prefix (index_prefix (cb_Sequence cb)) k"
        have "unat (cb_Sequence cb) < nxt V (db_db b)" by (rule clipboard_sequence [OF c(1) inv])
        with v(1) have "cb_Sequence cb \<noteq> version" by auto
        with c(2) show "?m' k = ?m k" by (intro same) auto
      qed
      ultimately show ?thesis using w(1-3) N by (simp add: db_inv_def)
    qed
  qed
  then show "settles res" "db_inv L V b'" "clipboard_of L ?m' = clipboard_of L ?m" by auto
qed

end

end
