(* ===== verification/Storage_Read.thy ===== *)
theory Storage_Read
  imports Storage_Laws
begin

text \<open>
  The read path of the package \<^verbatim>\<open>storage\<close>. The interfaces \<open>StreamWriter\<close> and \<open>HeaderWriter\<close> that \<open>ReadBatch\<close> is given are the
  locale \<open>stream_writer\<close>: \<open>log\<close> is the sequence of messages delivered, \<open>held\<close> the data accepted but not delivered yet, and
  \<open>reliable\<close> a stream that accepts everything, and \<open>cap\<close> the length of its chunks, all but the last of which are full. Inside the locale, \<open>ReadBatch\<close> is shown to send the header of the current clipboard,
  then its data cut into chunks, then its checksum.
\<close>

locale stream_writer =
  fixes Write :: "'o stream_write"
    and Flush :: "'o stream_flush"
    and Header :: "'o header_write"
    and Chunk :: "bytes \<Rightarrow> 'm"
    and Sum :: "bytes \<Rightarrow> 'm"
    and Hdr :: "bool \<Rightarrow> bool \<Rightarrow> bytes \<Rightarrow> bytes \<Rightarrow> bytes \<Rightarrow> 'm"
    and inv :: "'o \<Rightarrow> bool"
    and reliable :: "'o \<Rightarrow> bool"
    and log :: "'o \<Rightarrow> 'm list"
    and held :: "'o \<Rightarrow> bytes"
    and cap :: "'o \<Rightarrow> nat"
  assumes held_cap: "inv out \<Longrightarrow> length (held out) < cap out"
    and Write_returns: "inv out \<Longrightarrow> Write out p = (r, out') \<Longrightarrow> returns r"
    and Write_ok: "inv out \<Longrightarrow> Write out p = (Ok n, out') \<Longrightarrow> n = length p \<and> inv out' \<and> cap out' = cap out \<and>
      (\<exists>ds. log out' = log out @ map Chunk ds \<and> concat ds @ held out' = held out @ p \<and>
        (\<forall>d \<in> set ds. length d = cap out))"
    and Write_reliable: "inv out \<Longrightarrow> reliable out \<Longrightarrow> Write out p = (r, out') \<Longrightarrow>
      (\<exists>n. r = Ok n) \<and> reliable out'"
    and Flush_returns: "inv out \<Longrightarrow> Flush out c = (rf, out') \<Longrightarrow> returns rf"
    and Flush_ok: "inv out \<Longrightarrow> Flush out c = (Ok u, out') \<Longrightarrow>
      log out' = log out @ [Chunk (held out)] @ (if c = [] then [] else [Sum c])"
    and Flush_reliable: "inv out \<Longrightarrow> reliable out \<Longrightarrow> Flush out c = (rf, out') \<Longrightarrow> rf = Ok ()"
    and Header_ok: "inv out \<Longrightarrow> Header out a b mk k iv = (None, out') \<Longrightarrow>
      inv out' \<and> cap out' = cap out \<and> held out' = held out \<and> log out' = log out @ [Hdr a b mk k iv]"
    and Header_reliable: "inv out \<Longrightarrow> reliable out \<Longrightarrow> Header out a b mk k iv = (e, out') \<Longrightarrow>
      e = None \<and> reliable out'"
begin

text \<open>The values written for a list of items.\<close>

definition payload :: "(bytes \<times> bytes) list \<Rightarrow> bytes" where
  "payload es = concat (map snd (filter (\<lambda>kv. suffix chunkSuffix (fst kv)) es))"

definition items_post :: "nat \<Rightarrow> bytes \<Rightarrow> 'o \<Rightarrow> nat result \<times> 'o \<Rightarrow> bool" where
  "items_post read p out ro \<longleftrightarrow>
     returns (fst ro) \<and> (reliable out \<longrightarrow> (\<exists>n. fst ro = Ok n) \<and> reliable (snd ro)) \<and>
     (\<forall>n. fst ro = Ok n \<longrightarrow> n = read + length p \<and> inv (snd ro) \<and> cap (snd ro) = cap out \<and>
        (\<exists>ds. log (snd ro) = log out @ map Chunk ds \<and> concat ds @ held (snd ro) = held out @ p \<and>
          (\<forall>d \<in> set ds. length d = cap out)))"

lemma items_post_Cons:
  assumes "inv out" and "\<And>n out1. inv out1 \<Longrightarrow> items_post (read + n) q out1 (f n out1)"
  shows "items_post read (p @ q) out (and_then (Write out p) f)"
proof -
  obtain r1 out1 where w: "Write out p = (r1, out1)" by fastforce
  show ?thesis
  proof (cases r1)
    case (Ok n)
    from Write_ok [OF assms(1) w [unfolded Ok]] obtain ds where
      w1: "n = length p" "inv out1" "log out1 = log out @ map Chunk ds" "concat ds @ held out1 = held out @ p"
        "cap out1 = cap out" "\<forall>d \<in> set ds. length d = cap out" by blast
    obtain r2 out2 where f: "f n out1 = (r2, out2)" by fastforce
    have post: "items_post (read + n) q out1 (r2, out2)" using assms(2) [OF w1(2), of n] f by simp
    have "\<exists>ds. log out2 = log out @ map Chunk ds \<and> concat ds @ held out2 = held out @ p @ q \<and>
        (\<forall>d \<in> set ds. length d = cap out)" if "r2 = Ok k" for k
    proof -
      from post that obtain ds' where "log out2 = log out1 @ map Chunk ds'" "concat ds' @ held out2 = held out1 @ q"
        "\<forall>d \<in> set ds'. length d = cap out1" by (auto simp: items_post_def)
      then have "log out2 = log out @ map Chunk (ds @ ds')" "concat (ds @ ds') @ held out2 = concat ds @ held out1 @ q"
        "\<forall>d \<in> set (ds @ ds'). length d = cap out"
        using w1(3,5,6) by auto
      with w1(4) show ?thesis by (metis append.assoc)
    qed
    with post w1 Write_reliable [OF assms(1) _ w] show ?thesis
      unfolding w Ok and_then.simps f by (auto simp: items_post_def)
  qed (use w Write_returns [OF assms(1) w] Write_reliable [OF assms(1) _ w] in \<open>auto simp: items_post_def\<close>)
qed

lemma read_items_spec: "inv out \<Longrightarrow> items_post read (payload es) out (read_items Write read (map (apsnd Inr) es) out)"
proof (induction es arbitrary: read out)
  case Nil
  then show ?case by (auto simp: items_post_def payload_def intro!: exI [of _ "[]"])
next
  case (Cons kv es)
  show ?case
  proof (cases "suffix chunkSuffix (fst kv)")
    case True
    have "items_post read (snd kv @ payload es) out
        (and_then (Write out (snd kv)) (\<lambda>n. read_items Write (read + n) (map (apsnd Inr) es)))"
      by (rule items_post_Cons [OF Cons.prems Cons.IH])
    with True show ?thesis by (cases kv) (simp add: payload_def)
  next
    case False
    with Cons.IH [OF Cons.prems] show ?thesis by (cases kv) (simp add: payload_def)
  qed
qed

lemma seek_items:
  assumes "sorted_wrt (<) (map fst es)" and "map_of es = m"
  shows "\<exists>es'. seek_prefix (index_prefix v) (map (apsnd Inr) es) = map (apsnd Inr) es' \<and>
    payload es' = concat (stored_chunks m v)"
proof -
  let ?es = "filter (\<lambda>kv. prefix (index_prefix v) (fst kv)) es"
  have "seek_prefix (index_prefix v) (map (apsnd Inr) es) = map (apsnd Inr) ?es"
    using seek_prefix_filter [of "map (apsnd Inr) es" "index_prefix v"] assms(1)
    by (simp add: filter_map comp_def)
  moreover have "payload ?es = concat (stored_chunks m v)"
    using filter_entries_eq [OF assms, of "\<lambda>k. prefix (index_prefix v) k \<and> suffix chunkSuffix k"]
    by (simp add: payload_def stored_chunks_def comp_def conj_commute)
  ultimately show ?thesis by blast
qed

text \<open>No clipboard: \<open>ErrKeyNotFound\<close>, and nothing is sent.\<close>

lemma ReadBatch_missing:
  assumes "lib_laws L V" and "live V (db_db b) latestKey = None"
  shows "ReadBatch L Write Flush Header b out = (Err ErrKeyNotFound, out)"
  using assms lib_laws_txn(2,4) [OF assms(1)]
  by (simp add: ReadBatch_def read_txn_def)

definition Hdr_of :: "Clipboard \<Rightarrow> 'm" where
  "Hdr_of cb = Hdr (cb_Compressed cb) (cb_Checksum cb \<noteq> []) (cb_MasterKeyNonce cb) (cb_KeyNonce cb) (cb_Iv cb)"

definition read_post :: "'o \<Rightarrow> Clipboard \<Rightarrow> bytes list \<Rightarrow> nat result \<times> 'o \<Rightarrow> bool" where
  "read_post out cb cs ro \<longleftrightarrow>
     returns (fst ro) \<and> (reliable out \<longrightarrow> (\<exists>n. fst ro = Ok n)) \<and>
     (\<forall>n. fst ro = Ok n \<longrightarrow> n = length (concat cs) \<and>
       log (snd ro) = log out @ [Hdr_of cb] @ map Chunk (cut (cap out) (held out @ concat cs)) @
          (if cb_Checksum cb = [] then [] else [Sum (cb_Checksum cb)]))"

lemma ReadBatch_spec:
  assumes "lib_laws L V" and "inv out" and "clipboard_of L (live V (db_db b)) = Some (cb, cs)"
  shows "read_post out cb cs (ReadBatch L Write Flush Header b out)"
proof -
  let ?t = "bg_txn L (db_db b)" and ?m = "live V (db_db b)"
  obtain v where v: "?m latestKey = Some v" "pb_unmarshal_cb L v = Inr cb" "cs = stored_chunks ?m (cb_Sequence cb)"
    using assms(3) by (auto simp: clipboard_of_def split: option.splits sum.splits)
  have get: "bg_get L ?t latestKey = Inr (Inr v)"
    using lib_laws_txn(2,4) [OF assms(1)] v(1) by simp
  obtain es where es: "sorted_wrt (<) (map fst es)" "map_of es = ?m" "bg_items L ?t False = map (apsnd Inr) es"
    using lib_laws_txn(5) [OF assms(1), of ?t] lib_laws_txn(2) [OF assms(1)] by auto
  obtain es' where es': "seek_prefix (index_prefix (cb_Sequence cb)) (map (apsnd Inr) es) =
      (map (apsnd Inr) es' :: (bytes \<times> item) list)"
    "payload es' = concat cs"
    using seek_items [OF es(1,2)] v(3) by blast
  obtain e o1 where h: "Header out (cb_Compressed cb) (cb_Checksum cb \<noteq> []) (cb_MasterKeyNonce cb) (cb_KeyNonce cb)
      (cb_Iv cb) = (e, o1)" by fastforce
  obtain r2 o2 where i: "read_items Write 0 (map (apsnd Inr) es') o1 = (r2, o2)" by fastforce
  obtain r3 o3 where f: "Flush o2 (cb_Checksum cb) = (r3, o3)" by fastforce
  have run: "ReadBatch L Write Flush Header b out = and_then (lift_err e, o1) (\<lambda>_ o1'. and_then (read_items Write 0 (map (apsnd Inr) es') o1')
      (\<lambda>read o2'. and_then (Flush o2' (cb_Checksum cb)) (\<lambda>_ o4. (Ok read, o4))))"
    using get v(2) h es(3) es'(1) by (simp add: ReadBatch_def read_txn_def)
  show ?thesis
  proof (cases e)
    case (Some x)
    with run Header_reliable [OF assms(2) _ h] show ?thesis by (auto simp: read_post_def)
  next
    case None
    note o1 = Header_ok [OF assms(2) h [unfolded None]]
    note rel1 = Header_reliable [OF assms(2) _ h]
    from o1 have inv1: "inv o1" by simp
    have items: "items_post 0 (concat cs) o1 (r2, o2)" using read_items_spec [OF inv1, of 0 es'] i es'(2) by simp
    show ?thesis
    proof (cases r2)
      case (Ok k)
      from items Ok obtain ds where o2: "k = length (concat cs)" "inv o2" "log o2 = log o1 @ map Chunk ds"
        "concat ds @ held o2 = held o1 @ concat cs"
        "cap o2 = cap o1" "\<forall>d \<in> set ds. length d = cap o1" by (auto simp: items_post_def)
      note fl = Flush_returns [OF o2(2) f] Flush_reliable [OF o2(2) _ f]
      have cut: "cut (cap out) (held out @ concat cs) = ds @ [held o2]"
        using cut_unique [of ds "cap out" "held o2"] held_cap [OF o2(2)] o1 o2(4-6) by simp
      have "log o3 = log out @ [Hdr_of cb] @ map Chunk (cut (cap out) (held out @ concat cs)) @
          (if cb_Checksum cb = [] then [] else [Sum (cb_Checksum cb)])"
        if "r3 = Ok ()"
        using Flush_ok [OF o2(2) f [unfolded that]] o1 o2(3) unfolding cut
        by (simp add: Hdr_of_def)
      with run None i Ok f o2(1) items rel1 fl show ?thesis
        by (cases r3) (auto simp: read_post_def items_post_def)
    qed (use run None i items rel1 in \<open>auto simp: items_post_def read_post_def\<close>)
  qed
qed

end

end
