(* ===== verification/Server.thy ===== *)
theory Server
  imports Streams Storage_Write Storage_Read
begin

text \<open>
  The package \<^verbatim>\<open>server\<close>: \<^verbatim>\<open>clipboard.go\<close> (the gRPC service), \<^verbatim>\<open>option.go\<close> and \<^verbatim>\<open>server.go\<close>, with \<^verbatim>\<open>internal/tls/tls.go\<close>. The
  receiver and the sender of the service implement the interfaces of \<^verbatim>\<open>internal/grpc\<close>; the interpretations \<open>copy_recv\<close>,
  \<open>paste_send\<close> and \<open>paste_out\<close> show that they satisfy the contracts of \<open>Grpc_Reader\<close>, \<open>Grpc_Writer\<close> and \<open>Storage_Read\<close>.
\<close>

subsection \<open>option.go\<close>

record config =
  sc_grpcMaxRecvSize :: "64 word"
  sc_ca :: bytes
  sc_cert :: bytes
  sc_key :: bytes
  sc_dev :: bool

definition DefaultGrpcMaxRecvSize :: "64 word" where "DefaultGrpcMaxRecvSize = push_bit 20 200"

definition defaultOption :: config where
  "defaultOption = \<lparr>sc_grpcMaxRecvSize = DefaultGrpcMaxRecvSize, sc_ca = [], sc_cert = [], sc_key = [], sc_dev = False\<rparr>"

datatype server_option =
    WithGrpcMaxRecvSize "64 word"
  | WithCredentials bytes bytes
  | WithCertificateAuthority bytes
  | WithDevMode bool

fun apply_option :: "server_option \<Rightarrow> config \<Rightarrow> config" where
  "apply_option (WithGrpcMaxRecvSize n) c = (if 0 < sint n then c\<lparr>sc_grpcMaxRecvSize := n\<rparr> else c)"
| "apply_option (WithCredentials cert key) c = c\<lparr>sc_cert := cert, sc_key := key\<rparr>"
| "apply_option (WithCertificateAuthority ca) c = c\<lparr>sc_ca := ca\<rparr>"
| "apply_option (WithDevMode enable) c = c\<lparr>sc_dev := enable\<rparr>"

definition apply_options :: "server_option list \<Rightarrow> config \<Rightarrow> config" where
  "apply_options opts c = fold apply_option opts c"

subsection \<open>internal/tls/tls.go\<close>

text \<open>
  \<open>'p\<close> is a certificate pool and \<open>'k\<close> a key pair; parsing them (\<^verbatim>\<open>AppendCertsFromPEM\<close>, \<^verbatim>\<open>tls.X509KeyPair\<close>) is the
  argument \<open>X\<close>.
\<close>

record ('p, 'k) x509 =
  x_append :: "bytes \<Rightarrow> 'p option"
  x_key_pair :: "bytes \<Rightarrow> bytes \<Rightarrow> goerr + 'k"

record ('p, 'k) tls_config =
  tc_Certificates :: "'k list"
  tc_RootCAs :: "'p option"
  tc_ClientCAs :: "'p option"
  tc_ClientAuth :: bool            \<comment> \<open>\<^verbatim>\<open>tls.RequireAndVerifyClientCert\<close>\<close>

definition LoadRootCa :: "('p, 'k) x509 \<Rightarrow> bytes \<Rightarrow> 'p result" where
  "LoadRootCa X ca =
     (case x_append X ca of
        None \<Rightarrow> Err (Errorf (str ''unable to append root certificate to the ca pool''))
      | Some p \<Rightarrow> Ok p)"

definition LoadKeyPair :: "('p, 'k) x509 \<Rightarrow> bytes \<Rightarrow> bytes \<Rightarrow> 'k result" where
  "LoadKeyPair X cert key = lift_sum (x_key_pair X cert key)"

definition LoadCertificate ::
  "('p, 'k) x509 \<Rightarrow> bytes \<Rightarrow> bytes \<Rightarrow> bytes \<Rightarrow> ('p, 'k) tls_config \<Rightarrow> ('p, 'k) tls_config result" where
  "LoadCertificate X ca cert key conf =
     bind_result (if ca = [] then Ok None else bind_result (LoadRootCa X ca) (\<lambda>p. Ok (Some p))) (\<lambda>rootCAs.
       if cert = [] \<or> key = [] then Err (Errorf (str ''both client certificate and key are required''))
       else bind_result (LoadKeyPair X cert key) (\<lambda>k.
         Ok (conf\<lparr>tc_Certificates := tc_Certificates conf @ [k], tc_RootCAs := rootCAs, tc_ClientCAs := rootCAs\<rparr>)))"

subsection \<open>server.go\<close>

record ('d, 'u) webClipboardService =
  ws_db :: "('d, 'u) BadgerDB"
  ws_config :: config

text \<open>What \<open>NewServer\<close> hands to gRPC: the limit on received messages and the transport credentials.\<close>

record ('d, 'u, 'p, 'k) Server =
  srv_maxRecv :: "64 word"
  srv_creds :: "('p, 'k) tls_config option"
  srv_service :: "('d, 'u) webClipboardService"

definition NewServer ::
  "('p, 'k) x509 \<Rightarrow> ('d, 'u) BadgerDB \<Rightarrow> server_option list \<Rightarrow> ('d, 'u, 'p, 'k) Server result" where
  "NewServer X db opts =
     (let conf = apply_options opts defaultOption
      in bind_result
           (if sc_dev conf then Ok None
            else if sc_cert conf = [] \<or> sc_key conf = []
              then Err (Errorf (str ''tls certificate is required in non dev mode environment''))
            else bind_result
                   (LoadCertificate X (sc_ca conf) (sc_cert conf) (sc_key conf)
                      \<lparr>tc_Certificates = [], tc_RootCAs = None, tc_ClientCAs = None, tc_ClientAuth = True\<rparr>)
                   (\<lambda>tls. Ok (Some tls)))
           (\<lambda>creds. Ok \<lparr>srv_maxRecv = sc_grpcMaxRecvSize conf, srv_creds = creds,
                        srv_service = \<lparr>ws_db = db, ws_config = conf\<rparr>\<rparr>))"

text \<open>
  \<open>Stop\<close> waits for the graceful stop or for the context, whichever comes first; \<open>graceful\<close> says which one it is.
  \<open>Start\<close> listens and serves.
\<close>

datatype stop_call = GracefulStop | HardStop

definition Server_Stop :: "bool \<Rightarrow> goerr \<Rightarrow> unit result \<times> stop_call list" where
  "Server_Stop graceful ctx_err =
     (if graceful then (Ok (), [GracefulStop]) else (Err ctx_err, [GracefulStop, HardStop]))"

definition Server_Start :: "(goerr + 'l) \<Rightarrow> ('l \<Rightarrow> goerr option) \<Rightarrow> unit result" where
  "Server_Start listen serve = bind_result (lift_sum listen) (\<lambda>lis. lift_err (serve lis))"

subsection \<open>clipboard.go: the receiver of Copy\<close>

definition DefaultTtl :: "64 word" where "DefaultTtl = 10 * 60 * 10 ^ 9"
definition DefaultTransferRate :: "64 word" where "DefaultTransferRate = push_bit 20 1"

record grpcReceiver =
  gr_srv :: "CopyStream inbox"
  gr_checksum :: bytes

definition newGrpcReceiver :: "CopyStream inbox \<Rightarrow> grpcReceiver" where
  "newGrpcReceiver srv = \<lparr>gr_srv = srv, gr_checksum = []\<rparr>"

definition err_info_header :: goerr where
  "err_info_header = Errorf (str ''protocol error: chunk stream expected but get info header'')"

definition grpcReceiver_Next :: "grpcReceiver recv" where
  "grpcReceiver_Next gc =
     (case stream_Recv (gr_srv gc) of
        (Inl e, srv) \<Rightarrow> (Inl e, gc\<lparr>gr_srv := srv\<rparr>)
      | (Inr m, srv) \<Rightarrow>
          (let gc1 = gc\<lparr>gr_srv := srv\<rparr>
           in case cs_Data m of
                Some (CS_Info _) \<Rightarrow> (Inl err_info_header, gc1)
              | Some (CS_Checksum _) \<Rightarrow> (Inl EOF, gc1\<lparr>gr_checksum := CopyStream_GetChecksum m\<rparr>)
              | _ \<Rightarrow> (Inr (CopyStream_GetChunk m), gc1)))"

definition grpcReceiver_Checksum :: "grpcReceiver \<Rightarrow> bytes" where
  "grpcReceiver_Checksum gc = gr_checksum gc"

text \<open>What is left of the stream: the chunks up to the first message that ends it, and that end.\<close>

fun copy_chunks :: "CopyStream list \<Rightarrow> bytes list" where
  "copy_chunks [] = []"
| "copy_chunks (m # ms) =
     (case cs_Data m of
        Some (CS_Info _) \<Rightarrow> []
      | Some (CS_Checksum _) \<Rightarrow> []
      | _ \<Rightarrow> CopyStream_GetChunk m # copy_chunks ms)"

fun copy_fin :: "goerr \<Rightarrow> CopyStream list \<Rightarrow> goerr" where
  "copy_fin e [] = e"
| "copy_fin e (m # ms) =
     (case cs_Data m of
        Some (CS_Info _) \<Rightarrow> err_info_header
      | Some (CS_Checksum _) \<Rightarrow> EOF
      | _ \<Rightarrow> copy_fin e ms)"

fun copy_sum :: "bytes \<Rightarrow> CopyStream list \<Rightarrow> bytes" where
  "copy_sum c [] = c"
| "copy_sum c (m # ms) =
     (case cs_Data m of
        Some (CS_Info _) \<Rightarrow> c
      | Some (CS_Checksum x) \<Rightarrow> x
      | _ \<Rightarrow> copy_sum c ms)"

definition recv_chunks :: "grpcReceiver \<Rightarrow> bytes list" where
  "recv_chunks gc = copy_chunks (in_msgs (gr_srv gc))"

definition recv_fin :: "grpcReceiver \<Rightarrow> goerr" where
  "recv_fin gc = copy_fin (in_end (gr_srv gc)) (in_msgs (gr_srv gc))"

definition recv_sum :: "grpcReceiver \<Rightarrow> bytes" where
  "recv_sum gc = copy_sum (gr_checksum gc) (in_msgs (gr_srv gc))"

lemmas recv_defs = recv_chunks_def recv_fin_def recv_sum_def grpcReceiver_Next_def

interpretation copy_recv: chunk_receiver grpcReceiver_Next grpcReceiver_Checksum recv_chunks recv_fin recv_sum
proof
  fix s c cs
  assume "recv_chunks s = c # cs"
  then show "\<exists>s'. grpcReceiver_Next s = (Inr c, s') \<and> recv_chunks s' = cs \<and> recv_fin s' = recv_fin s \<and>
      recv_sum s' = recv_sum s"
    by (cases "in_msgs (gr_srv s)") (auto simp: recv_defs split: option.splits CopyStream_data.splits)
next
  fix s
  assume "recv_chunks s = []"
  then show "\<exists>s'. grpcReceiver_Next s = (Inl (recv_fin s), s') \<and> grpcReceiver_Checksum s' = recv_sum s"
    by (cases "in_msgs (gr_srv s)")
       (auto simp: recv_defs grpcReceiver_Checksum_def CopyStream_GetChecksum_def
         split: option.splits CopyStream_data.splits)
qed

text \<open>The reader that \<open>Copy\<close> passes to \<open>WriteBatch\<close>.\<close>

definition copy_Read :: "grpcReceiver Reader io_read" where
  "copy_Read = Reader_Read grpcReceiver_Next"

definition copy_Checksum :: "grpcReceiver Reader \<Rightarrow> bytes" where
  "copy_Checksum = Reader_Checksum grpcReceiver_Checksum"

subsection \<open>clipboard.go: the sender of Paste\<close>

type_synonym grpcSender = "PastStream outbox"

definition past_msg :: "PastStream_data \<Rightarrow> PastStream" where
  "past_msg d = \<lparr>ps_Data = Some d, ps_unknownFields = []\<rparr>"

definition past_chunk :: "bytes \<Rightarrow> PastStream" where
  "past_chunk p = past_msg (PS_Chunk p)"

definition past_sum :: "bytes \<Rightarrow> PastStream" where
  "past_sum p = past_msg (PS_Checksum p)"

definition past_info :: "bool \<Rightarrow> bool \<Rightarrow> bytes \<Rightarrow> bytes \<Rightarrow> bytes \<Rightarrow> PastStream" where
  "past_info compressed hasChecksum masterKeyNonce keyNonce iv =
     past_msg (PS_Info \<lparr>pi_Checksum = hasChecksum, pi_Compressed = compressed, pi_MasterKeyNonce = masterKeyNonce,
       pi_KeyNonce = keyNonce, pi_Iv = iv, pi_unknownFields = []\<rparr>)"

definition past_error :: "bytes \<Rightarrow> 32 word \<Rightarrow> PastStream" where
  "past_error text kind = past_msg (PS_Error \<lparr>pe_Type = kind, pe_Message = text, pe_unknownFields = []\<rparr>)"

definition InvalidOption :: "32 word" where "InvalidOption = 0"
definition KeyNotFound :: "32 word" where "KeyNotFound = 1"

definition grpcSender_SendError :: "grpcSender \<Rightarrow> goerr \<Rightarrow> 32 word \<Rightarrow> goerr option \<times> grpcSender" where
  "grpcSender_SendError gp e kind = stream_Send gp (past_error (error_text e) kind)"

definition grpcSender_Write :: "grpcSender header_write" where
  "grpcSender_Write gp compressed hasChecksum masterKeyNonce keyNonce iv =
     stream_Send gp (past_info compressed hasChecksum masterKeyNonce keyNonce iv)"

definition grpcSender_SendChunk :: "grpcSender send" where
  "grpcSender_SendChunk gp p = stream_Send gp (past_chunk p)"

definition grpcSender_SendChecksum :: "grpcSender send" where
  "grpcSender_SendChecksum gp p = (if p = [] then (None, gp) else stream_Send gp (past_sum p))"

interpretation paste_send: chunk_sender grpcSender_SendChunk grpcSender_SendChecksum past_chunk past_sum out_sent outbox_reliable
  by unfold_locales
     (auto simp: grpcSender_SendChunk_def grpcSender_SendChecksum_def stream_Send_ok stream_Send_err split: if_splits
       dest: stream_Send_ok stream_Send_reliable)

text \<open>
  The two views of one stream that \<open>Paste\<close> passes to \<open>ReadBatch\<close>: the chunk writer, and the sender below it for the header.
\<close>

definition paste_Write :: "grpcSender Writer stream_write" where
  "paste_Write w p = Writer_Write grpcSender_SendChunk w p"

definition paste_Flush :: "grpcSender Writer stream_flush" where
  "paste_Flush w checksum = Writer_Flush grpcSender_SendChunk grpcSender_SendChecksum w checksum"

definition paste_Header :: "grpcSender Writer header_write" where
  "paste_Header w compressed hasChecksum masterKeyNonce keyNonce iv =
     (let (e, s) = grpcSender_Write (w_s w) compressed hasChecksum masterKeyNonce keyNonce iv in (e, w\<lparr>w_s := s\<rparr>))"

interpretation paste_out: stream_writer paste_Write paste_Flush paste_Header past_chunk past_sum past_info writer_inv
  "\<lambda>w. outbox_reliable (w_s w)" "\<lambda>w. out_sent (w_s w)" buffered "\<lambda>w. length (w_t w)"
proof
  fix out :: "grpcSender Writer" and p out' and r :: "nat result" and n :: nat
  assume inv: "writer_inv out"
  show "length (buffered out) < length (w_t out)" by (rule buffered_short [OF inv])
  show "paste_Write out p = (r, out') \<Longrightarrow> returns r"
    using paste_send.Write_returns [OF inv, of p] by (simp add: paste_Write_def)
  show "paste_Write out p = (Ok n, out') \<Longrightarrow> n = length p \<and> writer_inv out' \<and>
      length (w_t out') = length (w_t out) \<and>
      (\<exists>ds. out_sent (w_s out') = out_sent (w_s out) @ map past_chunk ds \<and> concat ds @ buffered out' = buffered out @ p \<and>
        (\<forall>d \<in> set ds. length d = length (w_t out)))"
    using paste_send.Write_ok [OF inv, of p n out'] by (fastforce simp: paste_Write_def list_all_iff)
  show "outbox_reliable (w_s out) \<Longrightarrow> paste_Write out p = (r, out') \<Longrightarrow> (\<exists>n. r = Ok n) \<and> outbox_reliable (w_s out')"
    using paste_send.Write_spec(2) [OF inv, of p] by (simp add: paste_Write_def)
next
  fix out :: "grpcSender Writer" and c out' and rf :: "unit result" and u :: unit
  assume inv: "writer_inv out"
  show "paste_Flush out c = (rf, out') \<Longrightarrow> returns rf"
    using paste_send.Flush_returns [of out c] by (simp add: paste_Flush_def)
  show "paste_Flush out c = (Ok u, out') \<Longrightarrow>
      out_sent (w_s out') = out_sent (w_s out) @ [past_chunk (buffered out)] @ (if c = [] then [] else [past_sum c])"
    using paste_send.Flush_ok [OF inv, of c out'] by (simp add: paste_Flush_def)
  show "outbox_reliable (w_s out) \<Longrightarrow> paste_Flush out c = (rf, out') \<Longrightarrow> rf = Ok ()"
    using paste_send.Flush_reliable [of out c] by (simp add: paste_Flush_def)
next
  fix out :: "grpcSender Writer" and a b mk k iv out' and e :: "goerr option"
  assume inv: "writer_inv out"
  show "paste_Header out a b mk k iv = (None, out') \<Longrightarrow> writer_inv out' \<and>
      length (w_t out') = length (w_t out) \<and> buffered out' = buffered out \<and>
      out_sent (w_s out') = out_sent (w_s out) @ [past_info a b mk k iv]"
    using inv by (auto simp: paste_Header_def grpcSender_Write_def writer_inv_def buffered_def split: prod.splits
        dest: stream_Send_ok)
  show "outbox_reliable (w_s out) \<Longrightarrow> paste_Header out a b mk k iv = (e, out') \<Longrightarrow> e = None \<and> outbox_reliable (w_s out')"
    by (auto simp: paste_Header_def grpcSender_Write_def split: prod.splits dest: stream_Send_reliable)
qed

subsection \<open>clipboard.go: the service\<close>

text \<open>\<open>ctx_err\<close> is \<^verbatim>\<open>ctx.Err()\<close>, \<open>None\<close> while the context is not done.\<close>

definition Status ::
  "('d, 't, 'w, 'u) lib \<Rightarrow> goerr option \<Rightarrow> ('d, 'u) webClipboardService \<Rightarrow> ServerStatus result" where
  "Status L ctx_err s =
     (case ctx_err of
        Some e \<Rightarrow> Err (StatusError Canceled (error_text e))
      | None \<Rightarrow>
          (let (lsm, vlog) = Size L (ws_db s); c = ws_config s
           in Ok \<lparr>ss_DbSize = lsm + vlog, ss_DbPath = Path (ws_db s),
                  ss_GrpcMaxReceiveBytes = sc_grpcMaxRecvSize c, ss_GcInterval = GcInterval (ws_db s),
                  ss_DevMode = sc_dev c, ss_GrpcMTls = (0 < length (sc_key c) \<and> 0 < length (sc_cert c)),
                  ss_unknownFields = []\<rparr>))"

definition Clear ::
  "('d, 't, 'w, 'u) lib \<Rightarrow> goerr option \<Rightarrow> ('d, 'u) webClipboardService \<Rightarrow>
     unit result \<times> ('d, 'u) webClipboardService" where
  "Clear L ctx_err s =
     (case ctx_err of
        Some e \<Rightarrow> (Err (StatusError Canceled (error_text e)), s)
      | None \<Rightarrow>
          (case DropAll L (ws_db s) of
             (Err e, b) \<Rightarrow> (Err (StatusError Internal (error_text e)), s\<lparr>ws_db := b\<rparr>)
           | (r, b) \<Rightarrow> (r, s\<lparr>ws_db := b\<rparr>)))"

text \<open>
  \<open>Copy\<close> takes the stream of the client and the outcome of \<open>SendAndClose\<close>. When the first message is not an info header, the
  code logs \<^verbatim>\<open>err.Error()\<close> with a nil \<open>err\<close>.
\<close>

definition Copy ::
  "('d, 't, 'w, 'u) lib \<Rightarrow> ('d, 'u) webClipboardService \<Rightarrow> CopyStream inbox \<Rightarrow> goerr option \<Rightarrow>
     unit result \<times> ('d, 'u) webClipboardService" where
  "Copy L s srv close_err =
     (case stream_Recv srv of
        (Inl e, srv1) \<Rightarrow> (Err e, s)
      | (Inr req, srv1) \<Rightarrow>
          (case CopyStream_GetInfo req of
             None \<Rightarrow> (Panic NilDereference, s)
           | Some fi \<Rightarrow>
               (let ttl = (if ci_Ttl fi = 0 then DefaultTtl else ci_Ttl fi);
                    h = \<lparr>h_compressed = ci_Compressed fi, h_masterKeyNonce = ci_MasterKeyNonce fi,
                         h_keyNonce = ci_KeyNonce fi, h_iv = ci_Iv fi\<rparr>
                in case WriteBatch L copy_Read copy_Checksum (ws_db s) (NewReader (newGrpcReceiver srv1)) ttl h of
                     (Ok _, b, _) \<Rightarrow> (lift_err close_err, s\<lparr>ws_db := b\<rparr>)
                   | (Err e, b, _) \<Rightarrow> (Err (StatusError Internal (error_text e)), s\<lparr>ws_db := b\<rparr>)
                   | (Panic p, b, _) \<Rightarrow> (Panic p, s\<lparr>ws_db := b\<rparr>)
                   | (Loop, b, _) \<Rightarrow> (Loop, s\<lparr>ws_db := b\<rparr>))))"

definition err_rate :: goerr where
  "err_rate = Errorf (str ''transfer rate is above the server configuration limit'')"

text \<open>
  \<^verbatim>\<open>make([]byte, n)\<close> panics for a negative \<open>n\<close>.
\<close>

definition Paste ::
  "('d, 't, 'w, 'u) lib \<Rightarrow> ('d, 'u) webClipboardService \<Rightarrow> PasteOption \<Rightarrow> PastStream outbox \<Rightarrow>
     unit result \<times> PastStream outbox" where
  "Paste L s opt srv =
     (let rate = (if po_TransferRate opt = 0 then DefaultTransferRate else po_TransferRate opt)
      in if sint (sc_grpcMaxRecvSize (ws_config s)) < sint rate then
           (let (e, srv1) = grpcSender_SendError srv err_rate InvalidOption in (lift_err e, srv1))
         else if sint rate < 0 then (Panic MakeSliceLen, srv)
         else (case ReadBatch L paste_Write paste_Flush paste_Header (ws_db s)
                      (NewWriter srv (replicate (nat (sint rate)) 0)) of
                 (Ok _, w) \<Rightarrow> (Ok (), w_s w)
               | (Err e, w) \<Rightarrow>
                   if errors_is e ErrKeyNotFound then
                     (let (e', srv1) = grpcSender_SendError (w_s w) (Wrapf (str ''no data to paste'') e) KeyNotFound
                      in (lift_err e', srv1))
                   else (Err (StatusError Internal (error_text e)), w_s w)
               | (Panic p, w) \<Rightarrow> (Panic p, w_s w)
               | (Loop, w) \<Rightarrow> (Loop, w_s w)))"

end
