(* ===== verification/Client.thy ===== *)
theory Client
  imports Server
begin

text \<open>
  The package \<^verbatim>\<open>client\<close>: \<^verbatim>\<open>client.go\<close>, \<^verbatim>\<open>secret_manager.go\<close>, \<^verbatim>\<open>copyopt\<close> and \<^verbatim>\<open>pasteopt\<close>, with \<^verbatim>\<open>internal/crypto/kdf.go\<close>.

  The libraries the client calls are the fields of the record \<open>clib\<close>: scrypt, HKDF, the authenticated streams of \<^verbatim>\<open>sio\<close>, zstd, SHA-256, the
  random source and the conversion to \<^verbatim>\<open>float64\<close>. A transforming writer (\<^verbatim>\<open>EncryptWriter\<close>, the zstd encoder) is given by the pieces it
  writes to the writer below it and by its own error; a transforming reader (\<^verbatim>\<open>DecryptReader\<close>, the zstd decoder) by a \<open>Read\<close> over the \<open>Read\<close>
  below it. Nothing is assumed about them here.
\<close>

subsection \<open>copyopt and pasteopt\<close>

record copy_Config =
  cfg_ChunkSize :: "64 word"
  cfg_Checksum :: bool
  cfg_Ttl :: "64 word"
  cfg_Compression :: bool
  cfg_Encryption :: bool

definition copy_DefaultConfig :: copy_Config where
  "copy_DefaultConfig =
     \<lparr>cfg_ChunkSize = DefaultTransferRate, cfg_Checksum = False, cfg_Ttl = DefaultTtl, cfg_Compression = False,
      cfg_Encryption = False\<rparr>"

datatype copy_option =
    WithTransferRate "64 word"
  | WithChecksum bool
  | WithTtl "64 word"
  | WithCompression bool
  | WithEncryption bool

fun copy_Apply :: "copy_option \<Rightarrow> copy_Config \<Rightarrow> copy_Config" where
  "copy_Apply (WithTransferRate n) c = (if 0 < sint n then c\<lparr>cfg_ChunkSize := n\<rparr> else c)"
| "copy_Apply (WithChecksum enable) c = c\<lparr>cfg_Checksum := enable\<rparr>"
| "copy_Apply (WithTtl d) c = (if 0 < sint d then c\<lparr>cfg_Ttl := d\<rparr> else c)"
| "copy_Apply (WithCompression enable) c = c\<lparr>cfg_Compression := enable\<rparr>"
| "copy_Apply (WithEncryption enable) c = c\<lparr>cfg_Encryption := enable\<rparr>"

record paste_Config =
  pcfg_ChunkSize :: "64 word"

definition paste_DefaultConfig :: paste_Config where
  "paste_DefaultConfig = \<lparr>pcfg_ChunkSize = DefaultTransferRate\<rparr>"

datatype paste_option = PasteTransferRate "64 word"       \<comment> \<open>\<^verbatim>\<open>pasteopt.WithTransferRate\<close>\<close>

fun paste_Apply :: "paste_option \<Rightarrow> paste_Config \<Rightarrow> paste_Config" where
  "paste_Apply (PasteTransferRate n) c = (if 0 < sint n then c\<lparr>pcfg_ChunkSize := n\<rparr> else c)"

definition copy_config :: "copy_option list \<Rightarrow> copy_Config" where
  "copy_config opts = fold copy_Apply opts copy_DefaultConfig"

definition paste_config :: "paste_option list \<Rightarrow> paste_Config" where
  "paste_config opts = fold paste_Apply opts paste_DefaultConfig"

subsection \<open>The libraries\<close>

type_synonym pieces = "bytes list \<times> goerr option"         \<comment> \<open>written below, own error\<close>

text \<open>The receiver of \<open>Paste\<close>; its methods follow below.\<close>

record client_receiver =
  cr_c :: "PastStream inbox"
  cr_checksum :: bytes

type_synonym 'x source = "client_receiver Reader \<times> 'x option" \<comment> \<open>gRPC reader, \<^verbatim>\<open>DecryptReader\<close>\<close>

record ('k, 'e, 'z, 'x, 'y, 'g, 'f) clib =
  scrypt_Key :: "bytes \<Rightarrow> bytes \<Rightarrow> nat \<Rightarrow> nat \<Rightarrow> nat \<Rightarrow> nat \<Rightarrow> goerr + bytes"
  hkdf_Read :: "bytes \<Rightarrow> bytes \<Rightarrow> nat \<Rightarrow> goerr + bytes"        \<comment> \<open>\<^verbatim>\<open>io.ReadFull(hkdf.New(sha256.New, key, nonce, nil), \<dots>)\<close>\<close>
  sio_Stream :: "bytes \<Rightarrow> goerr + 'k"                       \<comment> \<open>\<^verbatim>\<open>sio.AES_256_GCM.Stream\<close>\<close>
  sio_NonceSize :: "'k \<Rightarrow> nat"
  sio_EncryptWriter :: "'k \<Rightarrow> bytes \<Rightarrow> 'e"
  sio_Write :: "'e \<Rightarrow> bytes \<Rightarrow> pieces \<times> 'e"
  sio_Close :: "'e \<Rightarrow> pieces"
  sio_DecryptReader :: "'k \<Rightarrow> bytes \<Rightarrow> 'x result"
  sio_Read :: "client_receiver Reader io_read \<Rightarrow> ('x \<times> client_receiver Reader) io_read"
  zstd_NewWriter :: "goerr + 'z"
  zstd_Write :: "'z \<Rightarrow> bytes \<Rightarrow> pieces \<times> 'z"
  zstd_Close :: "'z \<Rightarrow> pieces"
  zstd_NewReader :: "goerr + 'y"
  zstd_Read :: "'x source io_read \<Rightarrow> ('y \<times> 'x source) io_read"
  sha256_Sum :: "bytes \<Rightarrow> bytes"                            \<comment> \<open>\<^verbatim>\<open>hasher.Sum(nil)\<close> after all writes\<close>
  rand_Read :: "'g \<Rightarrow> nat \<Rightarrow> bytes \<times> 'g"
  speed :: "nat \<Rightarrow> 64 word \<Rightarrow> 'f"                            \<comment> \<open>\<^verbatim>\<open>float64(n) / d.Seconds()\<close>\<close>
  float64 :: "64 word \<Rightarrow> 'f"                                \<comment> \<open>of an \<^verbatim>\<open>int64\<close>\<close>

subsection \<open>kdf.go and secret\_manager.go\<close>

definition NonceSize :: nat where "NonceSize = 32"
definition sha256_Size :: nat where "sha256_Size = 32"

definition DerivePassword :: "('k, 'e, 'z, 'x, 'y, 'g, 'f) clib \<Rightarrow> bytes \<Rightarrow> bytes \<Rightarrow> bytes result" where
  "DerivePassword C password nonce = lift_sum (scrypt_Key C password nonce 32768 8 1 32)"

definition DeriveMasterKey :: "('k, 'e, 'z, 'x, 'y, 'g, 'f) clib \<Rightarrow> bytes \<Rightarrow> bytes \<Rightarrow> bytes result" where
  "DeriveMasterKey C masterKey nonce = lift_sum (hkdf_Read C masterKey nonce 32)"

text \<open>A \<open>SecretManager\<close> is what its \<open>Read\<close> returns; \<open>Password\<close> turns a function into one.\<close>

type_synonym secret = "goerr + bytes"

definition Password_Read :: "(unit \<Rightarrow> secret) \<Rightarrow> secret" where
  "Password_Read p = p ()"

subsection \<open>Counter\<close>

text \<open>The wrapped writer or reader is \<open>cn_x\<close>: a counter is made for one of the two.\<close>

record 'x Counter =
  cn_x :: 'x
  cn_sent :: nat
  cn_received :: nat

definition BytesWriteCounter :: "'w \<Rightarrow> 'w Counter" where
  "BytesWriteCounter w = \<lparr>cn_x = w, cn_sent = 0, cn_received = 0\<rparr>"

definition BytesReadCounter :: "'r \<Rightarrow> 'r Counter" where
  "BytesReadCounter r = \<lparr>cn_x = r, cn_sent = 0, cn_received = 0\<rparr>"

definition Counter_Write :: "'w stream_write \<Rightarrow> 'w Counter stream_write" where
  "Counter_Write Write cnt p =
     (case Write (cn_x cnt) p of
        (Ok n, w) \<Rightarrow> (Ok n, cnt\<lparr>cn_x := w, cn_sent := cn_sent cnt + n\<rparr>)
      | (r, w) \<Rightarrow> (r, cnt\<lparr>cn_x := w\<rparr>))"

definition Counter_Read :: "'r io_read \<Rightarrow> 'r Counter io_read" where
  "Counter_Read Read cnt p =
     (case Read (cn_x cnt) p of
        (Ok (n, e), q, r) \<Rightarrow> (Ok (n, e), q, cnt\<lparr>cn_x := r, cn_received := cn_received cnt + n\<rparr>)
      | (x, q, r) \<Rightarrow> (x, q, cnt\<lparr>cn_x := r\<rparr>))"

definition Sent :: "'x Counter \<Rightarrow> nat" where "Sent cnt = cn_sent cnt"
definition Received :: "'x Counter \<Rightarrow> nat" where "Received cnt = cn_received cnt"

subsection \<open>client.go: the sender of Copy\<close>

record client_sender =
  cl_c :: "CopyStream outbox"
  cl_bytesSent :: nat

definition new_client_sender :: "CopyStream outbox \<Rightarrow> client_sender" where
  "new_client_sender c = \<lparr>cl_c = c, cl_bytesSent = 0\<rparr>"

definition copy_chunk :: "bytes \<Rightarrow> CopyStream" where
  "copy_chunk p = \<lparr>cs_Data = Some (CS_Chunk p), cs_unknownFields = []\<rparr>"

definition copy_checksum :: "bytes \<Rightarrow> CopyStream" where
  "copy_checksum p = \<lparr>cs_Data = Some (CS_Checksum p), cs_unknownFields = []\<rparr>"

definition copy_info :: "64 word \<Rightarrow> bool \<Rightarrow> bytes \<Rightarrow> bytes \<Rightarrow> bytes \<Rightarrow> CopyStream" where
  "copy_info ttl compressed masterKeyNonce keyNonce iv =
     \<lparr>cs_Data = Some (CS_Info \<lparr>ci_Ttl = ttl, ci_Compressed = compressed, ci_MasterKeyNonce = masterKeyNonce,
        ci_KeyNonce = keyNonce, ci_Iv = iv, ci_unknownFields = []\<rparr>), cs_unknownFields = []\<rparr>"

definition sendInfo ::
  "CopyStream outbox \<Rightarrow> 64 word \<Rightarrow> bool \<Rightarrow> bytes \<Rightarrow> bytes \<Rightarrow> bytes \<Rightarrow> goerr option \<times> CopyStream outbox" where
  "sendInfo stream ttl compressed masterKeyNonce keyNonce iv =
     stream_Send stream (copy_info ttl compressed masterKeyNonce keyNonce iv)"

definition client_SendChunk :: "client_sender send" where
  "client_SendChunk gc p =
     (let gc1 = gc\<lparr>cl_bytesSent := cl_bytesSent gc + length p\<rparr>; (e, c) = stream_Send (cl_c gc1) (copy_chunk p)
      in (e, gc1\<lparr>cl_c := c\<rparr>))"

definition client_SendChecksum :: "client_sender send" where
  "client_SendChecksum gc p =
     (if p = [] then (None, gc)
      else (let (e, c) = stream_Send (cl_c gc) (copy_checksum p) in (e, gc\<lparr>cl_c := c\<rparr>)))"

interpretation client_send: chunk_sender client_SendChunk client_SendChecksum copy_chunk copy_checksum
  "\<lambda>s. out_sent (cl_c s)" "\<lambda>s. outbox_reliable (cl_c s)"
  by unfold_locales
     (auto simp: client_SendChunk_def client_SendChecksum_def Let_def split: if_splits prod.splits
       dest: stream_Send_ok stream_Send_err stream_Send_reliable)

subsection \<open>client.go: the receiver of Paste\<close>

definition new_client_receiver :: "PastStream inbox \<Rightarrow> client_receiver" where
  "new_client_receiver c = \<lparr>cr_c = c, cr_checksum = []\<rparr>"

definition err_info_message :: goerr where
  "err_info_message = Errorf (str ''protocol error: chunk message expected but get an info message'')"

definition err_error_message :: goerr where
  "err_error_message = Errorf (str ''protocol error: chunk message expected but get an error message'')"

definition client_Next :: "client_receiver recv" where
  "client_Next gc =
     (case stream_Recv (cr_c gc) of
        (Inl e, c) \<Rightarrow> (Inl e, gc\<lparr>cr_c := c\<rparr>)
      | (Inr m, c) \<Rightarrow>
          (let gc1 = gc\<lparr>cr_c := c\<rparr>
           in case ps_Data m of
                Some (PS_Info _) \<Rightarrow> (Inl err_info_message, gc1)
              | Some (PS_Error _) \<Rightarrow> (Inl err_error_message, gc1)
              | Some (PS_Checksum _) \<Rightarrow> (Inl EOF, gc1\<lparr>cr_checksum := PastStream_GetChecksum m\<rparr>)
              | _ \<Rightarrow> (Inr (PastStream_GetChunk m), gc1)))"

definition client_Checksum :: "client_receiver \<Rightarrow> bytes" where
  "client_Checksum gc = cr_checksum gc"

text \<open>What is left of the stream, as for the receiver of the server.\<close>

fun past_chunks :: "PastStream list \<Rightarrow> bytes list" where
  "past_chunks [] = []"
| "past_chunks (m # ms) =
     (case ps_Data m of
        Some (PS_Info _) \<Rightarrow> [] | Some (PS_Error _) \<Rightarrow> [] | Some (PS_Checksum _) \<Rightarrow> []
      | _ \<Rightarrow> PastStream_GetChunk m # past_chunks ms)"

fun past_fin :: "goerr \<Rightarrow> PastStream list \<Rightarrow> goerr" where
  "past_fin e [] = e"
| "past_fin e (m # ms) =
     (case ps_Data m of
        Some (PS_Info _) \<Rightarrow> err_info_message | Some (PS_Error _) \<Rightarrow> err_error_message | Some (PS_Checksum _) \<Rightarrow> EOF
      | _ \<Rightarrow> past_fin e ms)"

fun past_final_sum :: "bytes \<Rightarrow> PastStream list \<Rightarrow> bytes" where
  "past_final_sum c [] = c"
| "past_final_sum c (m # ms) =
     (case ps_Data m of
        Some (PS_Info _) \<Rightarrow> c | Some (PS_Error _) \<Rightarrow> c | Some (PS_Checksum x) \<Rightarrow> x
      | _ \<Rightarrow> past_final_sum c ms)"

definition pr_chunks :: "client_receiver \<Rightarrow> bytes list" where
  "pr_chunks gc = past_chunks (in_msgs (cr_c gc))"

definition pr_fin :: "client_receiver \<Rightarrow> goerr" where
  "pr_fin gc = past_fin (in_end (cr_c gc)) (in_msgs (cr_c gc))"

definition pr_sum :: "client_receiver \<Rightarrow> bytes" where
  "pr_sum gc = past_final_sum (cr_checksum gc) (in_msgs (cr_c gc))"

lemmas pr_defs = pr_chunks_def pr_fin_def pr_sum_def client_Next_def

interpretation paste_recv: chunk_receiver client_Next client_Checksum pr_chunks pr_fin pr_sum
proof
  fix s c cs
  assume "pr_chunks s = c # cs"
  then show "\<exists>s'. client_Next s = (Inr c, s') \<and> pr_chunks s' = cs \<and> pr_fin s' = pr_fin s \<and> pr_sum s' = pr_sum s"
    by (cases "in_msgs (cr_c s)") (auto simp: pr_defs split: option.splits PastStream_data.splits)
next
  fix s
  assume "pr_chunks s = []"
  then show "\<exists>s'. client_Next s = (Inl (pr_fin s), s') \<and> client_Checksum s' = pr_sum s"
    by (cases "in_msgs (cr_c s)")
       (auto simp: pr_defs client_Checksum_def PastStream_GetChecksum_def split: option.splits PastStream_data.splits)
qed

end
