(* ===== verification/Flags.thy ===== *)
theory Flags
  imports Client
begin

text \<open>
  \<^verbatim>\<open>command/command.go\<close>: the flags of the application and of its commands, and how the commands read them. The library \<^verbatim>\<open>urfave/cli\<close> parses the
  command line and the environment variables a flag names; what it found for a flag is an argument (\<open>cx_found\<close>). A flag for which it found
  nothing has its declared value, and reading a flag that is not declared, or at another type, gives the zero value.
\<close>

lemma of_char_byte_inject: "(of_char a :: byte) = of_char b \<longleftrightarrow> a = b"
proof
  let ?bits = "\<lambda>c. [digit0 c, digit1 c, digit2 c, digit3 c, digit4 c, digit5 c, digit6 c, digit7 c]"
  assume "(of_char a :: byte) = of_char b"
  from arg_cong [where f = "\<lambda>x. bit x n" for n, OF this]
  have eq: "(n < Suc (Suc (Suc (Suc (Suc (Suc (Suc (Suc 0))))))) \<and> ?bits a ! n) = (n < Suc (Suc (Suc (Suc (Suc (Suc (Suc (Suc 0))))))) \<and> ?bits b ! n)" for n
    by (simp add: of_char_def bit_horner_sum_bit_word_iff del: horner_sum_simps)
  from eq [of 0] eq [of 1] eq [of 2] eq [of 3] eq [of 4] eq [of 5] eq [of 6] eq [of 7]
  show "a = b" by (cases a; cases b) simp
qed simp

lemma str_inject [simp]: "str a = str b \<longleftrightarrow> a = b"
  using inj_map_eq_map [of "of_char :: char \<Rightarrow> byte" a b] by (simp add: str_def inj_def of_char_byte_inject)

subsection \<open>Names\<close>

definition hostFlag :: bytes where "hostFlag = str ''host''"
definition portFlag :: bytes where "portFlag = str ''port''"
definition tlsCertFlag :: bytes where "tlsCertFlag = str ''cert''"
definition tlsKeyFlag :: bytes where "tlsKeyFlag = str ''key''"
definition tlsCaFlag :: bytes where "tlsCaFlag = str ''ca''"
definition connInsecureFlag :: bytes where "connInsecureFlag = str ''insecure''"
definition connTimeoutFlag :: bytes where "connTimeoutFlag = str ''conn-timeout''"
definition devModeFlag :: bytes where "devModeFlag = str ''dev''"
definition grpcMaxReceivedBytesFlag :: bytes where "grpcMaxReceivedBytesFlag = str ''grpc-max-receive-bytes''"
definition gcIntervalFlag :: bytes where "gcIntervalFlag = str ''gc-interval''"
definition pathFlag :: bytes where "pathFlag = str ''path''"
definition timeoutFlag :: bytes where "timeoutFlag = str ''timeout''"
definition transferRateFlag :: bytes where "transferRateFlag = str ''transfer-rate''"
definition checksumFlag :: bytes where "checksumFlag = str ''checksum''"
definition ttlFlag :: bytes where "ttlFlag = str ''ttl''"
definition verboseFlag :: bytes where "verboseFlag = str ''verbose''"
definition compressFlag :: bytes where "compressFlag = str ''compress''"
definition discardFlag :: bytes where "discardFlag = str ''discard''"
definition fileFlag :: bytes where "fileFlag = str ''file''"
definition watchFlag :: bytes where "watchFlag = str ''watch''"
definition noPasswordFlag :: bytes where "noPasswordFlag = str ''no-password''"
definition clipboardFlag :: bytes where "clipboardFlag = str ''clipboard''"

lemmas flag_names = hostFlag_def portFlag_def tlsCertFlag_def tlsKeyFlag_def tlsCaFlag_def connInsecureFlag_def connTimeoutFlag_def devModeFlag_def
  grpcMaxReceivedBytesFlag_def gcIntervalFlag_def pathFlag_def timeoutFlag_def transferRateFlag_def checksumFlag_def ttlFlag_def verboseFlag_def
  compressFlag_def discardFlag_def fileFlag_def watchFlag_def noPasswordFlag_def clipboardFlag_def

definition secretEnv :: bytes where "secretEnv = str ''WEBCB_SECRET''"
definition hostEnv :: bytes where "hostEnv = str ''WEBCB_HOST''"
definition portEnv :: bytes where "portEnv = str ''WEBCB_PORT''"
definition tlsCertEnv :: bytes where "tlsCertEnv = str ''WEBCB_TLS_CERT''"
definition tlsKeyEnv :: bytes where "tlsKeyEnv = str ''WEBCB_TLS_KEY''"
definition tlsCaEnv :: bytes where "tlsCaEnv = str ''WEBCB_TLS_ROOT_CA''"

definition defaultServerAddr :: bytes where "defaultServerAddr = str ''0.0.0.0''"
definition defaultClientAddr :: bytes where "defaultClientAddr = str ''127.0.0.1''"
definition defaultClientConnTimeout :: "64 word" where "defaultClientConnTimeout = 5 * 10 ^ 9"

subsection \<open>Tables\<close>

datatype flag_value =
    FString bytes
  | FBool bool
  | FUint64 "64 word"
  | FInt "64 word"
  | FDuration "64 word"

record flag =
  fl_name :: bytes
  fl_value :: flag_value
  fl_aliases :: "bytes list"
  fl_env :: "bytes list"

definition plain_flag :: "bytes \<Rightarrow> flag_value \<Rightarrow> flag" where
  "plain_flag name v = \<lparr>fl_name = name, fl_value = v, fl_aliases = [], fl_env = []\<rparr>"

definition app_flags :: "flag list" where
  "app_flags =
     [(plain_flag hostFlag (FString []))\<lparr>fl_aliases := [str ''address''], fl_env := [hostEnv]\<rparr>,
      (plain_flag portFlag (FUint64 4444))\<lparr>fl_env := [portEnv]\<rparr>,
      (plain_flag tlsCertFlag (FString []))\<lparr>fl_env := [tlsCertEnv]\<rparr>,
      (plain_flag tlsKeyFlag (FString []))\<lparr>fl_env := [tlsKeyEnv]\<rparr>,
      (plain_flag tlsCaFlag (FString []))\<lparr>fl_env := [tlsCaEnv]\<rparr>]"

definition status_flags :: "flag list" where
  "status_flags =
     [plain_flag connTimeoutFlag (FDuration defaultClientConnTimeout), plain_flag connInsecureFlag (FBool False),
      plain_flag timeoutFlag (FDuration 0)]"

definition serve_flags :: "flag list" where
  "serve_flags =
     [plain_flag devModeFlag (FBool False), plain_flag grpcMaxReceivedBytesFlag (FInt DefaultGrpcMaxRecvSize),
      plain_flag gcIntervalFlag (FDuration (60 * 10 ^ 9)), plain_flag pathFlag (FString [])]"

definition copy_flags :: "flag list" where
  "copy_flags =
     [(plain_flag transferRateFlag (FString (str ''1048576b'')))\<lparr>fl_aliases := [str ''rate'']\<rparr>,
      (plain_flag watchFlag (FBool False))\<lparr>fl_aliases := [str ''w'']\<rparr>,
      plain_flag timeoutFlag (FDuration 0), plain_flag connTimeoutFlag (FDuration defaultClientConnTimeout),
      (plain_flag checksumFlag (FBool False))\<lparr>fl_aliases := [str ''sum'']\<rparr>,
      plain_flag ttlFlag (FDuration DefaultTtl), plain_flag verboseFlag (FBool False), plain_flag compressFlag (FBool False),
      (plain_flag noPasswordFlag (FBool False))\<lparr>fl_aliases := [str ''nopass'']\<rparr>,
      plain_flag connInsecureFlag (FBool False)]"

definition paste_flags :: "flag list" where
  "paste_flags =
     [(plain_flag transferRateFlag (FString (str ''1048576b'')))\<lparr>fl_aliases := [str ''rate'']\<rparr>,
      plain_flag timeoutFlag (FDuration 0), plain_flag connTimeoutFlag (FDuration defaultClientConnTimeout),
      plain_flag discardFlag (FBool False), plain_flag connInsecureFlag (FBool False),
      (plain_flag fileFlag (FString []))\<lparr>fl_aliases := [str ''f'']\<rparr>,
      (plain_flag clipboardFlag (FBool False))\<lparr>fl_aliases := [str ''cb'']\<rparr>]"

definition clear_flags :: "flag list" where
  "clear_flags =
     [plain_flag connTimeoutFlag (FDuration defaultClientConnTimeout), plain_flag connInsecureFlag (FBool False)]"

lemmas flag_tables = app_flags_def status_flags_def serve_flags_def copy_flags_def paste_flags_def clear_flags_def plain_flag_def

subsection \<open>Reading flags\<close>

text \<open>The context of a command: its own flags and those of the application.\<close>

record Context =
  cx_flags :: "flag list"
  cx_found :: "bytes \<Rightarrow> flag_value option"                  \<comment> \<open>by the name of the flag\<close>

definition flag_named :: "bytes \<Rightarrow> flag \<Rightarrow> bool" where
  "flag_named name f \<longleftrightarrow> name = fl_name f \<or> name \<in> set (fl_aliases f)"

definition lookup_flag :: "Context \<Rightarrow> bytes \<Rightarrow> flag_value option" where
  "lookup_flag cc name =
     (case find (flag_named name) (cx_flags cc @ app_flags) of
        None \<Rightarrow> None
      | Some f \<Rightarrow> Some (case cx_found cc (fl_name f) of Some v \<Rightarrow> v | None \<Rightarrow> fl_value f))"

definition cc_String :: "Context \<Rightarrow> bytes \<Rightarrow> bytes" where
  "cc_String cc name = (case lookup_flag cc name of Some (FString v) \<Rightarrow> v | _ \<Rightarrow> [])"

definition cc_Bool :: "Context \<Rightarrow> bytes \<Rightarrow> bool" where
  "cc_Bool cc name = (case lookup_flag cc name of Some (FBool v) \<Rightarrow> v | _ \<Rightarrow> False)"

definition cc_Uint64 :: "Context \<Rightarrow> bytes \<Rightarrow> 64 word" where
  "cc_Uint64 cc name = (case lookup_flag cc name of Some (FUint64 v) \<Rightarrow> v | _ \<Rightarrow> 0)"

definition cc_Int :: "Context \<Rightarrow> bytes \<Rightarrow> 64 word" where
  "cc_Int cc name = (case lookup_flag cc name of Some (FInt v) \<Rightarrow> v | _ \<Rightarrow> 0)"

definition cc_Duration :: "Context \<Rightarrow> bytes \<Rightarrow> 64 word" where
  "cc_Duration cc name = (case lookup_flag cc name of Some (FDuration v) \<Rightarrow> v | _ \<Rightarrow> 0)"

lemmas cc_defs = cc_String_def cc_Bool_def cc_Uint64_def cc_Int_def cc_Duration_def lookup_flag_def flag_named_def

subsection \<open>The commands\<close>

record cli_command =
  cm_Name :: bytes
  cm_Aliases :: "bytes list"
  cm_Flags :: "flag list"

definition app_commands :: "cli_command list" where
  "app_commands =
     [\<lparr>cm_Name = str ''status'', cm_Aliases = [], cm_Flags = status_flags\<rparr>,
      \<lparr>cm_Name = str ''serve'', cm_Aliases = [str ''s''], cm_Flags = serve_flags\<rparr>,
      \<lparr>cm_Name = str ''copy'', cm_Aliases = [str ''c''], cm_Flags = copy_flags\<rparr>,
      \<lparr>cm_Name = str ''paste'', cm_Aliases = [str ''p''], cm_Flags = paste_flags\<rparr>,
      \<lparr>cm_Name = str ''clear'', cm_Aliases = [], cm_Flags = clear_flags\<rparr>]"

text \<open>No name means two things: neither among the commands nor among the flags that one command sees.\<close>

definition flag_words :: "flag list \<Rightarrow> bytes list" where
  "flag_words fs = concat (map (\<lambda>f. fl_name f # fl_aliases f) fs)"

text \<open>
  The tables of the command line are unambiguous: no two commands share a name or an alias, and no two flags that a command sees,
  its own and those of the application, share one.
\<close>

lemma cli_unambiguous:
  "distinct (concat (map (\<lambda>c. cm_Name c # cm_Aliases c) app_commands)) \<and>
   list_all (\<lambda>c. distinct (flag_words (cm_Flags c @ app_flags))) app_commands"
  by (simp add: app_commands_def flag_words_def flag_tables flag_names)

end
