(* ===== verification/Client_Calls.thy ===== *)
theory Client_Calls
  imports Client
begin

text \<open>
  \<^verbatim>\<open>client.go\<close>: the calls \<open>Copy\<close>, \<open>Paste\<close>, \<open>Clear\<close> and \<open>Status\<close>. What gRPC does with a call is an argument: for \<open>Copy\<close> the stream it opens and the
  reply that \<^verbatim>\<open>CloseAndRecv\<close> brings for the messages sent, for \<open>Paste\<close> the stream of the server's messages, given the request and the
  limit on the size of a message.
\<close>

subsection \<open>io.ReadAtLeast\<close>

partial_function (option) read_at_least ::
  "'r io_read \<Rightarrow> nat \<Rightarrow> bytes \<Rightarrow> nat \<Rightarrow> 'r \<Rightarrow> ((nat \<times> goerr option) result \<times> bytes \<times> 'r) option" where
  "read_at_least Read least buf n r =
     (if n < least then
        (case Read r (drop n buf) of
           (Ok (nn, err), q, r1) \<Rightarrow>
             (let buf1 = take n buf @ q; n1 = n + nn
              in case err of
                   None \<Rightarrow> read_at_least Read least buf1 n1 r1
                 | Some e \<Rightarrow>
                     Some (Ok (n1, if n1 \<ge> least then None else if n1 > 0 \<and> e = EOF then Some ErrUnexpectedEOF else Some e),
                       buf1, r1))
         | (Err e, q, r1) \<Rightarrow> Some (Err e, take n buf @ q, r1)
         | (Panic p, q, r1) \<Rightarrow> Some (Panic p, take n buf @ q, r1)
         | (Loop, q, r1) \<Rightarrow> Some (Loop, take n buf @ q, r1))
      else Some (Ok (n, None), buf, r))"

declare read_at_least.simps [code]

definition ReadAtLeast ::
  "'r io_read \<Rightarrow> 'r \<Rightarrow> bytes \<Rightarrow> nat \<Rightarrow> ((nat \<times> goerr option) result \<times> bytes \<times> 'r) option" where
  "ReadAtLeast Read r buf least =
     (if length buf < least then Some (Ok (0, Some (External (str ''short buffer''))), buf, r)
      else read_at_least Read least buf 0 r)"

subsection \<open>The writers of Copy\<close>

text \<open>
  The writer \<open>w\<close> of \<open>Copy\<close>: the counted gRPC writer, below the encrypter, below the encoder, where each of the two is present.
\<close>

record ('e, 'z) chain =
  ch_cnt :: "client_sender Writer Counter"
  ch_encrypter :: "'e option"
  ch_encoder :: "'z option"

definition cnt_Write :: "client_sender Writer Counter stream_write" where
  "cnt_Write = Counter_Write (Writer_Write client_SendChunk)"

fun write_pieces :: "'s stream_write \<Rightarrow> bytes list \<Rightarrow> 's \<Rightarrow> unit result \<times> 's" where
  "write_pieces Write [] s = (Ok (), s)"
| "write_pieces Write (p # ps) s = and_then (Write s p) (\<lambda>_. write_pieces Write ps)"

definition write_through :: "'s stream_write \<Rightarrow> pieces \<Rightarrow> 's \<Rightarrow> unit result \<times> 's" where
  "write_through Write x s = and_then (write_pieces Write (fst x) s) (\<lambda>_ s1. (lift_err (snd x), s1))"

definition enc_Write :: "('k, 'e, 'z, 'x, 'y, 'g, 'f) clib \<Rightarrow> ('e, 'z) chain stream_write" where
  "enc_Write C ch p =
     (case ch_encrypter ch of
        None \<Rightarrow> (let (r, c) = cnt_Write (ch_cnt ch) p in (r, ch\<lparr>ch_cnt := c\<rparr>))
      | Some e \<Rightarrow>
          (let (x, e1) = sio_Write C e p; (r, c) = write_through cnt_Write x (ch_cnt ch)
           in (bind_result r (\<lambda>_. Ok (length p)), ch\<lparr>ch_cnt := c, ch_encrypter := Some e1\<rparr>)))"

definition chain_Write :: "('k, 'e, 'z, 'x, 'y, 'g, 'f) clib \<Rightarrow> ('e, 'z) chain stream_write" where
  "chain_Write C ch p =
     (case ch_encoder ch of
        None \<Rightarrow> enc_Write C ch p
      | Some z \<Rightarrow>
          (let (x, z1) = zstd_Write C z p; (r, ch1) = write_through (enc_Write C) x ch
           in (bind_result r (\<lambda>_. Ok (length p)), ch1\<lparr>ch_encoder := Some z1\<rparr>)))"

definition encoder_Close :: "('k, 'e, 'z, 'x, 'y, 'g, 'f) clib \<Rightarrow> ('e, 'z) chain \<Rightarrow> unit result \<times> ('e, 'z) chain" where
  "encoder_Close C ch =
     (case ch_encoder ch of
        None \<Rightarrow> (Ok (), ch)
      | Some z \<Rightarrow> write_through (enc_Write C) (zstd_Close C z) ch)"

definition encrypter_Close :: "('k, 'e, 'z, 'x, 'y, 'g, 'f) clib \<Rightarrow> ('e, 'z) chain \<Rightarrow> unit result \<times> ('e, 'z) chain" where
  "encrypter_Close C ch =
     (case ch_encrypter ch of
        None \<Rightarrow> (Ok (), ch)
      | Some e \<Rightarrow> (let (r, c) = write_through cnt_Write (sio_Close C e) (ch_cnt ch) in (r, ch\<lparr>ch_cnt := c\<rparr>)))"

text \<open>The messages sent so far, and the header that is sent below the writers.\<close>

definition chain_outbox :: "('e, 'z) chain \<Rightarrow> CopyStream outbox" where
  "chain_outbox ch = cl_c (w_s (cn_x (ch_cnt ch)))"

definition chain_sendInfo ::
  "('e, 'z) chain \<Rightarrow> 64 word \<Rightarrow> bool \<Rightarrow> bytes \<Rightarrow> bytes \<Rightarrow> bytes \<Rightarrow> unit result \<times> ('e, 'z) chain" where
  "chain_sendInfo ch ttl compressed masterKeyNonce keyNonce iv =
     (let cnt = ch_cnt ch; gw = cn_x cnt; s = w_s gw;
          (e, c) = sendInfo (cl_c s) ttl compressed masterKeyNonce keyNonce iv
      in (lift_err e, ch\<lparr>ch_cnt := cnt\<lparr>cn_x := gw\<lparr>w_s := s\<lparr>cl_c := c\<rparr>\<rparr>\<rparr>\<rparr>))"

definition chain_Flush :: "('e, 'z) chain \<Rightarrow> bytes \<Rightarrow> unit result \<times> ('e, 'z) chain" where
  "chain_Flush ch checksum =
     (let cnt = ch_cnt ch; (r, gw) = Writer_Flush client_SendChunk client_SendChecksum (cn_x cnt) checksum
      in (r, ch\<lparr>ch_cnt := cnt\<lparr>cn_x := gw\<rparr>\<rparr>))"

subsection \<open>Copy\<close>

text \<open>The state of the loop: what the hasher has been given (\<open>None\<close>: no hasher) and the writers.\<close>

type_synonym ('e, 'z) copy_state = "bytes option \<times> ('e, 'z) chain"

definition put_block ::
  "('k, 'e, 'z, 'x, 'y, 'g, 'f) clib \<Rightarrow> bytes \<Rightarrow> ('e, 'z) copy_state \<Rightarrow> unit result \<times> ('e, 'z) copy_state" where
  "put_block C p st =
     (let (h, ch) = st; (r, ch1) = chain_Write C ch p
      in and_then (r, h, ch1) (\<lambda>_ (h, ch). (Ok (), map_option (\<lambda>d. d @ p) h, ch)))"

definition close_writers ::
  "('k, 'e, 'z, 'x, 'y, 'g, 'f) clib \<Rightarrow> ('e, 'z) copy_state \<Rightarrow> unit result \<times> ('e, 'z) copy_state" where
  "close_writers C st =
     (let (h, ch) = st; (r, ch1) = and_then (encoder_Close C ch) (\<lambda>_. encrypter_Close C) in (r, h, ch1))"

partial_function (option) copy_loop ::
  "('k, 'e, 'z, 'x, 'y, 'g, 'f) clib \<Rightarrow> 'r io_read \<Rightarrow> nat \<Rightarrow> nat \<Rightarrow> bytes \<Rightarrow> 'r \<Rightarrow> ('e, 'z) copy_state \<Rightarrow>
     (nat result \<times> 'r \<times> ('e, 'z) copy_state) option" where
  "copy_loop C Read chunkSize bytesRead buf r st =
     (case ReadAtLeast Read r buf chunkSize of
        None \<Rightarrow> None
      | Some (Ok (nr, err), buf1, r1) \<Rightarrow>
          (let bytesRead1 = bytesRead + nr
           in case err of
                Some e \<Rightarrow>
                  if errors_is e EOF then
                    (let (res, st1) = and_then (close_writers C st) (\<lambda>_ s. (Ok bytesRead1, s)) in Some (res, r1, st1))
                  else if errors_is e ErrUnexpectedEOF then
                    (case put_block C (take nr buf1) st of
                       (Ok _, st1) \<Rightarrow> copy_loop C Read chunkSize bytesRead1 buf1 r1 st1
                     | (Err e, st1) \<Rightarrow> Some (Err e, r1, st1)
                     | (Panic p, st1) \<Rightarrow> Some (Panic p, r1, st1)
                     | (Loop, st1) \<Rightarrow> Some (Loop, r1, st1))
                  else Some (Err e, r1, st)
              | None \<Rightarrow>
                  (case put_block C (take nr buf1) st of
                     (Ok _, st1) \<Rightarrow> copy_loop C Read chunkSize bytesRead1 buf1 r1 st1
                   | (Err e, st1) \<Rightarrow> Some (Err e, r1, st1)
                   | (Panic p, st1) \<Rightarrow> Some (Panic p, r1, st1)
                   | (Loop, st1) \<Rightarrow> Some (Loop, r1, st1)))
      | Some (Err e, buf1, r1) \<Rightarrow> Some (Err e, r1, st)
      | Some (Panic p, buf1, r1) \<Rightarrow> Some (Panic p, r1, st)
      | Some (Loop, buf1, r1) \<Rightarrow> Some (Loop, r1, st))"

declare copy_loop.simps [code]

record 'f Summary =
  sm_BytesRead :: nat
  sm_ByteWrite :: nat
  sm_CopyDuration :: "64 word"
  sm_Checksum :: bytes
  sm_Encrypted :: bool
  sm_Compressed :: bool
  sm_TransferRate :: 'f

text \<open>The keys of an encrypted copy: both nonces, the initialisation vector and the stream cipher.\<close>

record 'e sealing =
  se_masterKeyNonce :: bytes
  se_keyNonce :: bytes
  se_iv :: bytes
  se_encrypter :: 'e

definition derive_key :: "('k, 'e, 'z, 'x, 'y, 'g, 'f) clib \<Rightarrow> bytes \<Rightarrow> bytes \<Rightarrow> bytes \<Rightarrow> 'k result" where
  "derive_key C pwd masterKeyNonce keyNonce =
     bind_result (DerivePassword C pwd masterKeyNonce) (\<lambda>masterKey.
     bind_result (DeriveMasterKey C masterKey keyNonce) (\<lambda>key. lift_sum (sio_Stream C key)))"

definition new_sealing :: "('k, 'e, 'z, 'x, 'y, 'g, 'f) clib \<Rightarrow> 'g \<Rightarrow> secret \<Rightarrow> 'e sealing result" where
  "new_sealing C g secret =
     bind_result (lift_sum secret) (\<lambda>pwd.
       let (masterKeyNonce, g1) = rand_Read C g NonceSize
       in bind_result (DerivePassword C pwd masterKeyNonce) (\<lambda>masterKey.
          let (keyNonce, g2) = rand_Read C g1 NonceSize
          in bind_result (DeriveMasterKey C masterKey keyNonce) (\<lambda>key.
             bind_result (lift_sum (sio_Stream C key)) (\<lambda>s.
               let (iv, g3) = rand_Read C g2 (sio_NonceSize C s)
               in Ok \<lparr>se_masterKeyNonce = masterKeyNonce, se_keyNonce = keyNonce, se_iv = iv,
                      se_encrypter = sio_EncryptWriter C s iv\<rparr>))))"

text \<open>After the loop: the checksum, the flush, the reply of the server.\<close>

definition copy_finish ::
  "('k, 'e, 'z, 'x, 'y, 'g, 'f) clib \<Rightarrow> (CopyStream list \<Rightarrow> goerr option) \<Rightarrow> copy_Config \<Rightarrow> 64 word \<Rightarrow> nat \<Rightarrow>
     ('e, 'z) copy_state \<Rightarrow> 'f Summary result \<times> ('e, 'z) copy_state" where
  "copy_finish C CloseAndRecv config d bytesRead st =
     (let (h, ch) = st;
          checksum = (case h of None \<Rightarrow> [] | Some dat \<Rightarrow> sha256_Sum C dat);
          (r, ch1) = chain_Flush ch checksum
      in and_then (r, h, ch1) (\<lambda>_ (h, ch).
           case CloseAndRecv (out_sent (chain_outbox ch)) of
             Some e \<Rightarrow> (Err e, h, ch)
           | None \<Rightarrow>
               (Ok \<lparr>sm_BytesRead = bytesRead, sm_ByteWrite = Sent (ch_cnt ch), sm_CopyDuration = d, sm_Checksum = checksum,
                    sm_Encrypted = cfg_Encryption config, sm_Compressed = cfg_Compression config,
                    sm_TransferRate = speed C (Sent (ch_cnt ch)) d\<rparr>, h, ch)))"

text \<open>From the info header on, with the encrypter and the encoder in place.\<close>

definition copy_send ::
  "('k, 'e, 'z, 'x, 'y, 'g, 'f) clib \<Rightarrow> (CopyStream list \<Rightarrow> goerr option) \<Rightarrow> 'r io_read \<Rightarrow> 'r \<Rightarrow> copy_Config \<Rightarrow> 64 word \<Rightarrow>
     'e sealing option \<Rightarrow> 'z option \<Rightarrow> ('e, 'z) copy_state \<Rightarrow> 'f Summary result \<times> ('e, 'z) copy_state" where
  "copy_send C CloseAndRecv Read r config d s z st =
     (let (h, ch) = st; chunkSize = nat (sint (cfg_ChunkSize config));
          ch1 = ch\<lparr>ch_encrypter := map_option se_encrypter s, ch_encoder := z\<rparr>;
          nonce = (\<lambda>f. case s of None \<Rightarrow> [] | Some x \<Rightarrow> f x);
          (r1, ch2) = chain_sendInfo ch1 (cfg_Ttl config) (cfg_Compression config)
            (nonce se_masterKeyNonce) (nonce se_keyNonce) (nonce se_iv)
      in and_then (r1, h, ch2) (\<lambda>_ st.
           case copy_loop C Read chunkSize 0 (replicate chunkSize 0) r st of
             None \<Rightarrow> (Loop, st)
           | Some (res, r2, st2) \<Rightarrow> and_then (res, st2) (copy_finish C CloseAndRecv config d)))"

definition new_encoder :: "('k, 'e, 'z, 'x, 'y, 'g, 'f) clib \<Rightarrow> copy_Config \<Rightarrow> 'z option result" where
  "new_encoder C config =
     (if cfg_Compression config then bind_result (lift_sum (zstd_NewWriter C)) (\<lambda>z. Ok (Some z)) else Ok None)"

text \<open>
  The arguments: the libraries, the outcome of opening the stream, the reply to the messages sent, the input, the secret, the random source,
  the elapsed time, the options. The outcome: a summary or an error, and the messages that were sent.
\<close>

definition Client_Copy ::
  "('k, 'e, 'z, 'x, 'y, 'g, 'f) clib \<Rightarrow> goerr + CopyStream outbox \<Rightarrow> (CopyStream list \<Rightarrow> goerr option) \<Rightarrow> 'r io_read \<Rightarrow> 'r \<Rightarrow>
     secret \<Rightarrow> 'g \<Rightarrow> 64 word \<Rightarrow> copy_option list \<Rightarrow> 'f Summary result \<times> CopyStream list" where
  "Client_Copy C opened CloseAndRecv Read r secret g d opts =
     (let config = copy_config opts
      in case opened of
           Inl e \<Rightarrow> (Err e, [])
         | Inr stream \<Rightarrow>
             if sint (cfg_ChunkSize config) < 0 then (Panic MakeSliceLen, out_sent stream)
             else
               (let chunkSize = nat (sint (cfg_ChunkSize config));
                    cnt = BytesWriteCounter (NewWriter (new_client_sender stream) (replicate chunkSize 0));
                    ch = \<lparr>ch_cnt = cnt, ch_encrypter = None, ch_encoder = None\<rparr>;
                    hasher = (if cfg_Checksum config then Some [] else None);
                    sealing = (if cfg_Encryption config then bind_result (new_sealing C g secret) (\<lambda>s. Ok (Some s)) else Ok None);
                    (res, _, ch1) =
                      and_then (sealing, hasher, ch) (\<lambda>s st.
                      and_then (new_encoder C config, st) (\<lambda>z st.
                        copy_send C CloseAndRecv Read r config d s z st))
                in (res, out_sent (chain_outbox ch1))))"

subsection \<open>Paste\<close>

text \<open>The output of \<open>Paste\<close>: the bytes written, and the outcomes of the writes to come (an error may follow a partial write).\<close>

record sink =
  sk_data :: bytes
  sk_errs :: "(nat \<times> goerr) option list"

fun sink_Write :: "sink \<Rightarrow> bytes \<Rightarrow> unit result \<times> sink" where
  "sink_Write s p =
     (case sk_errs s of
        [] \<Rightarrow> (Ok (), s\<lparr>sk_data := sk_data s @ p\<rparr>)
      | None # es \<Rightarrow> (Ok (), s\<lparr>sk_data := sk_data s @ p, sk_errs := es\<rparr>)
      | Some (k, e) # es \<Rightarrow> (Err e, s\<lparr>sk_data := sk_data s @ take k p, sk_errs := es\<rparr>))"

definition sink_reliable :: "sink \<Rightarrow> bool" where
  "sink_reliable s \<longleftrightarrow> list_all (\<lambda>e. e = None) (sk_errs s)"

definition gr_Read :: "client_receiver Reader io_read" where
  "gr_Read = Reader_Read client_Next"

text \<open>The reader \<open>r\<close> of \<open>Paste\<close>: the gRPC reader, below the decrypter, below the decoder, where each of the two is present.\<close>

definition source_Read :: "('k, 'e, 'z, 'x, 'y, 'g, 'f) clib \<Rightarrow> 'x source io_read" where
  "source_Read C src p =
     (case snd src of
        None \<Rightarrow> (let (res, q, gr) = gr_Read (fst src) p in (res, q, gr, None))
      | Some x \<Rightarrow> (let (res, q, x1, gr) = sio_Read C gr_Read (x, fst src) p in (res, q, gr, Some x1)))"

definition input_Read :: "('k, 'e, 'z, 'x, 'y, 'g, 'f) clib \<Rightarrow> ('x source \<times> 'y option) io_read" where
  "input_Read C inp p =
     (case snd inp of
        None \<Rightarrow> (let (res, q, src) = source_Read C (fst inp) p in (res, q, src, None))
      | Some y \<Rightarrow> (let (res, q, y1, src) = zstd_Read C (source_Read C) (y, fst inp) p in (res, q, src, Some y1)))"

text \<open>One block: the hasher (when there is a checksum), then the output.\<close>

definition take_block :: "bool \<Rightarrow> bytes \<Rightarrow> bytes \<times> sink \<Rightarrow> unit result \<times> bytes \<times> sink" where
  "take_block checksum p st =
     (let (h, w) = st; h1 = (if checksum then h @ p else h); (r, w1) = sink_Write w p in (r, h1, w1))"

partial_function (option) paste_loop ::
  "'r io_read \<Rightarrow> bool \<Rightarrow> bytes \<Rightarrow> 'r \<Rightarrow> bytes \<times> sink \<Rightarrow> (unit result \<times> 'r \<times> bytes \<times> sink) option" where
  "paste_loop Read checksum buf r st =
     (case Read r buf of
        (Ok (n, err), buf1, r1) \<Rightarrow>
          (case err of
             Some e \<Rightarrow>
               if \<not> errors_is e EOF then Some (Err e, r1, st)
               else if n > 0 then (let (res, st1) = take_block checksum (take n buf1) st in Some (res, r1, st1))
               else Some (Ok (), r1, st)
           | None \<Rightarrow>
               (case take_block checksum (take n buf1) st of
                  (Ok _, st1) \<Rightarrow> paste_loop Read checksum buf1 r1 st1
                | (res, st1) \<Rightarrow> Some (res, r1, st1)))
      | (Err e, buf1, r1) \<Rightarrow> Some (Err e, r1, st)
      | (Panic p, buf1, r1) \<Rightarrow> Some (Panic p, r1, st)
      | (Loop, buf1, r1) \<Rightarrow> Some (Loop, r1, st))"

declare paste_loop.simps [code]

definition err_first_message :: goerr where
  "err_first_message = Errorf (str ''protocol error: info or error message expected but get a chunk message'')"

definition err_sum_size :: goerr where "err_sum_size = Errorf (str ''invalid sha256 size'')"
definition err_sum :: goerr where "err_sum = Errorf (str ''checksum failed'')"

text \<open>The comparison after the loop.\<close>

definition check_sum :: "('k, 'e, 'z, 'x, 'y, 'g, 'f) clib \<Rightarrow> bool \<Rightarrow> bytes \<Rightarrow> bytes \<Rightarrow> unit result" where
  "check_sum C checksum digest h =
     (if checksum then
        if length digest \<noteq> sha256_Size then Err err_sum_size
        else if digest \<noteq> sha256_Sum C h then Err err_sum else Ok ()
      else Ok ())"

definition new_decrypter ::
  "('k, 'e, 'z, 'x, 'y, 'g, 'f) clib \<Rightarrow> secret \<Rightarrow> PastStream_Info \<Rightarrow> 'x option result" where
  "new_decrypter C secret info =
     (if length (pi_MasterKeyNonce info) = NonceSize \<and> length (pi_KeyNonce info) = NonceSize then
        bind_result (lift_sum secret) (\<lambda>pwd.
        bind_result (derive_key C pwd (pi_MasterKeyNonce info) (pi_KeyNonce info)) (\<lambda>s.
        bind_result (sio_DecryptReader C s (pi_Iv info)) (\<lambda>x. Ok (Some x))))
      else Ok None)"

definition new_decoder :: "('k, 'e, 'z, 'x, 'y, 'g, 'f) clib \<Rightarrow> PastStream_Info \<Rightarrow> 'y option result" where
  "new_decoder C info =
     (if pi_Compressed info then bind_result (lift_sum (zstd_NewReader C)) (\<lambda>y. Ok (Some y)) else Ok None)"

text \<open>From the info header on.\<close>

definition paste_receive ::
  "('k, 'e, 'z, 'x, 'y, 'g, 'f) clib \<Rightarrow> secret \<Rightarrow> 64 word \<Rightarrow> PastStream_Info \<Rightarrow> PastStream inbox \<Rightarrow> sink \<Rightarrow> unit result \<times> sink" where
  "paste_receive C secret chunkSize info resp w =
     and_then (new_decrypter C secret info, w) (\<lambda>x w.
     and_then (new_decoder C info, w) (\<lambda>y w.
       if sint chunkSize < 0 then (Panic MakeSliceLen, w)
       else (case paste_loop (input_Read C) (pi_Checksum info) (replicate (nat (sint chunkSize)) 0)
                    ((NewReader (new_client_receiver resp), x), y) ([], w) of
               None \<Rightarrow> (Loop, w)
             | Some (res, inp, h, w1) \<Rightarrow>
                 and_then (res, w1) (\<lambda>_ w1.
                   (check_sum C (pi_Checksum info) (Reader_Checksum client_Checksum (fst (fst inp))) h, w1)))))"

definition Client_Paste ::
  "('k, 'e, 'z, 'x, 'y, 'g, 'f) clib \<Rightarrow> (PasteOption \<Rightarrow> 64 word \<Rightarrow> goerr + PastStream inbox) \<Rightarrow> secret \<Rightarrow> sink \<Rightarrow>
     paste_option list \<Rightarrow> unit result \<times> sink" where
  "Client_Paste C rpc secret w opts =
     (let chunkSize = pcfg_ChunkSize (paste_config opts)
      in case rpc \<lparr>po_TransferRate = chunkSize, po_unknownFields = []\<rparr> (chunkSize + 1000) of
           Inl e \<Rightarrow> (Err e, w)
         | Inr resp \<Rightarrow>
             (case stream_Recv resp of
                (Inl e, resp1) \<Rightarrow> (Err e, w)
              | (Inr stream, resp1) \<Rightarrow>
                  (case ps_Data stream of
                     Some (PS_Info info) \<Rightarrow> paste_receive C secret chunkSize info resp1 w
                   | Some (PS_Error pasteErr) \<Rightarrow> (Err (Errorf (pe_Message pasteErr)), w)
                   | _ \<Rightarrow> (Err err_first_message, w))))"

subsection \<open>Clear and Status\<close>

definition Client_Clear :: "goerr + unit \<Rightarrow> unit result" where
  "Client_Clear reply = lift_sum reply"

record 'f ServerConfig =
  sv_DbSize :: 'f
  sv_DbPath :: bytes
  sv_GrpcMaxReceiveBytes :: 'f
  sv_GcInterval :: "64 word"
  sv_DevMOde :: bool
  sv_GrpcMTLS :: bool

definition Client_Status :: "('k, 'e, 'z, 'x, 'y, 'g, 'f) clib \<Rightarrow> goerr + ServerStatus \<Rightarrow> 'f ServerConfig result" where
  "Client_Status C reply =
     bind_result (lift_sum reply) (\<lambda>config.
       Ok \<lparr>sv_DbSize = float64 C (ss_DbSize config), sv_DbPath = ss_DbPath config,
           sv_GrpcMaxReceiveBytes = float64 C (ss_GrpcMaxReceiveBytes config), sv_GcInterval = ss_GcInterval config,
           sv_DevMOde = ss_DevMode config, sv_GrpcMTLS = ss_GrpcMTls config\<rparr>)"

end
