(* ===== verification/Ui.thy ===== *)
theory Ui
  imports Client_Calls
begin

text \<open>
  \<^verbatim>\<open>command/ui.go\<close>: the output of the commands and \<open>formatDuration\<close>, with the methods \<open>Round\<close> and \<open>String\<close> of \<^verbatim>\<open>time.Duration\<close> it uses. Durations are
  \<^verbatim>\<open>int64\<close> nanoseconds; they are read as integers here, and the places where Go guards against overflow are written out.
\<close>

subsection \<open>Output\<close>

record ui =
  ui_stdout :: sink
  ui_stderr :: sink

definition newUi :: "sink \<Rightarrow> sink \<Rightarrow> ui" where
  "newUi stdout stderr = \<lparr>ui_stdout = stdout, ui_stderr = stderr\<rparr>"

text \<open>One write of the formatted text; an error of the writer is a panic.\<close>

definition must_write :: "sink \<Rightarrow> bytes \<Rightarrow> unit result \<times> sink" where
  "must_write w t = (case sink_Write w t of (Err e, w1) \<Rightarrow> (Panic (PanicError e), w1) | r \<Rightarrow> r)"

text \<open>\<open>chalk\<close> colours a text (package \<^verbatim>\<open>gchalk\<close>); \<open>t\<close> is the text after formatting.\<close>

definition ui_Errorf :: "(string \<Rightarrow> bytes \<Rightarrow> bytes) \<Rightarrow> ui \<Rightarrow> bytes \<Rightarrow> unit result \<times> ui" where
  "ui_Errorf chalk u t = (let (r, w) = must_write (ui_stderr u) (chalk ''#c62828'' t) in (r, u\<lparr>ui_stderr := w\<rparr>))"

definition ui_Infof :: "ui \<Rightarrow> bytes \<Rightarrow> unit result \<times> ui" where
  "ui_Infof u t = (let (r, w) = must_write (ui_stdout u) t in (r, u\<lparr>ui_stdout := w\<rparr>))"

definition ui_Warnf :: "(string \<Rightarrow> bytes \<Rightarrow> bytes) \<Rightarrow> ui \<Rightarrow> bytes \<Rightarrow> unit result \<times> ui" where
  "ui_Warnf chalk u t = (let (r, w) = must_write (ui_stdout u) (chalk ''#fdd835'' t) in (r, u\<lparr>ui_stdout := w\<rparr>))"

definition ui_Successf :: "(string \<Rightarrow> bytes \<Rightarrow> bytes) \<Rightarrow> ui \<Rightarrow> bytes \<Rightarrow> unit result \<times> ui" where
  "ui_Successf chalk u t = (let (r, w) = must_write (ui_stdout u) (chalk ''#43a047'' t) in (r, u\<lparr>ui_stdout := w\<rparr>))"

subsection \<open>time.Duration\<close>

definition Second :: int where "Second = 10 ^ 9"

text \<open>Rounds half away from zero, and stays within \<^verbatim>\<open>int64\<close>.\<close>

definition Duration_Round :: "int \<Rightarrow> int \<Rightarrow> int" where
  "Duration_Round d m =
     (if m \<le> 0 then d
      else if d < 0 then
        (let r = (- d) mod m
         in if r + r < m then d + r else if - (2 ^ 63) \<le> d - m + r then d - m + r else - (2 ^ 63))
      else
        (let r = d mod m
         in if r + r < m then d - r else if d + m - r < 2 ^ 63 then d + m - r else 2 ^ 63 - 1))"

text \<open>The fraction \<open>v / 10 ^ prec\<close> without trailing zeros, and the integer part.\<close>

fun fmtFrac :: "nat \<Rightarrow> int \<Rightarrow> bool \<Rightarrow> bytes \<Rightarrow> bytes \<times> int" where
  "fmtFrac 0 v prnt acc = (if prnt then str ''.'' @ acc else acc, v)"
| "fmtFrac (Suc i) v prnt acc =
     (let digit = v mod 10; prnt1 = (prnt \<or> digit \<noteq> 0)
      in fmtFrac i (v div 10) prnt1 (if prnt1 then (48 + of_int digit) # acc else acc))"

definition fmtInt :: "int \<Rightarrow> bytes" where "fmtInt v = format_nat (nat v)"

definition with_frac :: "int \<Rightarrow> nat \<Rightarrow> bytes" where
  "with_frac u prec = (let (f, v) = fmtFrac prec u False [] in fmtInt v @ f)"

definition Duration_String :: "int \<Rightarrow> bytes" where
  "Duration_String d =
     (let u = \<bar>d\<bar>;
          t = (if u = 0 then str ''0s''
               else if u < 1000 then fmtInt u @ str ''ns''
               else if u < 1000000 then with_frac u 3 @ [194, 181] @ str ''s''
               else if u < Second then with_frac u 6 @ str ''ms''
               else
                 (let (f, s) = fmtFrac 9 u False []; m = s div 60; h = m div 60
                  in (if m > 0 then (if h > 0 then fmtInt h @ str ''h'' else []) @ fmtInt (m mod 60) @ str ''m'' else []) @
                     fmtInt (s mod 60) @ f @ str ''s''))
      in if d < 0 then str ''-'' @ t else t)"

subsection \<open>formatDuration\<close>

text \<open>The loop looks for the largest power of ten that is not above \<open>d\<close>.\<close>

partial_function (option) scale_loop :: "int \<Rightarrow> int \<Rightarrow> int option" where
  "scale_loop scale d = (if scale > d then scale_loop (scale div 10) d else Some scale)"

declare scale_loop.simps [code]

definition formatDuration :: "64 word \<Rightarrow> bytes result" where
  "formatDuration d =
     (case scale_loop (100 * Second) (sint d) of
        None \<Rightarrow> Loop
      | Some scale \<Rightarrow> Ok (Duration_String (Duration_Round (sint d) (scale div 100))))"

lemma scale_loop_bounds:
  assumes "scale_loop s d = Some y" and "0 \<le> s"
  shows "0 \<le> y \<and> y \<le> d"
proof -
  have "0 \<le> s \<longrightarrow> 0 \<le> y \<and> y \<le> d"
  proof (rule scale_loop.raw_induct [OF _ assms(1)])
    fix loop and s d y :: int
    assume "\<And>s d y. loop s d = Some y \<Longrightarrow> 0 \<le> s \<longrightarrow> 0 \<le> y \<and> y \<le> d" and "(if s > d then loop (s div 10) d else Some s) = Some y"
    then show "0 \<le> s \<longrightarrow> 0 \<le> y \<and> y \<le> d" by (cases "s > d") (fastforce dest: pos_imp_zdiv_nonneg_iff [THEN iffD2, rotated])+
  qed
  with assms(2) show ?thesis by simp
qed

lemma scale_loop_returns: "0 \<le> s \<Longrightarrow> 0 \<le> d \<Longrightarrow> \<exists>y. scale_loop s d = Some y"
proof (induction "nat s" arbitrary: s rule: less_induct)
  case less
  show ?case
  proof (cases "s > d")
    case True
    then have "nat (s div 10) < nat s" "0 \<le> s div 10" using less.prems by auto
    from less.hyps [OF this] less.prems True show ?thesis by (subst scale_loop.simps) simp
  qed (subst scale_loop.simps, simp)
qed

lemma Duration_Round_near:
  assumes "0 \<le> d" and "d < 2 ^ 63"
  shows "0 \<le> m \<Longrightarrow> 2 * \<bar>Duration_Round d m - d\<bar> \<le> m"
proof -
  assume m: "0 \<le> m"
  define r where "r = d mod m"
  have "0 < m \<Longrightarrow> 0 \<le> r \<and> r < m" by (simp add: r_def)
  then show ?thesis using assms m unfolding Duration_Round_def r_def [symmetric] Let_def by auto
qed

lemma formatDuration_cases:
  "0 \<le> sint d \<Longrightarrow> \<exists>d'. formatDuration d = Ok (Duration_String d') \<and> 200 * \<bar>d' - sint d\<bar> \<le> sint d"
  "sint d < 0 \<Longrightarrow> formatDuration d = Loop"
proof -
  assume d: "0 \<le> sint d"
  obtain s where s: "scale_loop (100 * Second) (sint d) = Some s" using scale_loop_returns d by (fastforce simp: Second_def)
  have b: "0 \<le> s" "s \<le> sint d" using scale_loop_bounds [OF s] by (simp_all add: Second_def)
  have "2 * \<bar>Duration_Round (sint d) (s div 100) - sint d\<bar> \<le> s div 100"
    by (rule Duration_Round_near) (use d sint_lt [of d] b in auto)
  then have "200 * \<bar>Duration_Round (sint d) (s div 100) - sint d\<bar> \<le> sint d" using b by linarith
  with s show "\<exists>d'. formatDuration d = Ok (Duration_String d') \<and> 200 * \<bar>d' - sint d\<bar> \<le> sint d" by (auto simp: formatDuration_def)
next
  assume "sint d < 0"
  then have "scale_loop (100 * Second) (sint d) = None" using scale_loop_bounds [of "100 * Second" "sint d"]
    by (cases "scale_loop (100 * Second) (sint d)") (auto simp: Second_def)
  then show "formatDuration d = Loop" by (simp add: formatDuration_def)
qed

text \<open>
  C35: \<open>formatDuration\<close> returns exactly for durations that are not negative: for these its loop finds a scale, for a negative one the scale stays at
  zero and the loop never ends. The duration it prints differs from the given one by at most half a percent.
\<close>

theorem formatDuration_precise:
  "(if 0 \<le> sint d then \<exists>d'. formatDuration d = Ok (Duration_String d') \<and> 200 * \<bar>d' - sint d\<bar> \<le> sint d
    else formatDuration d = Loop)"
  using formatDuration_cases [of d] by auto

lemma formatDuration_samples:
  "formatDuration 1234567890 = Ok (str ''1.23s'')" "formatDuration 0 = Ok (str ''0s'')" "formatDuration 3725000000000 = Ok (str ''1h2m5s'')"
  by code_simp+

end
