(* ===== verification/Command.thy ===== *)
theory Command
  imports Flags Ui
begin

text \<open>
  The commands of \<^verbatim>\<open>command/*.go\<close>: \<open>copy\<close>, \<open>paste\<close>, \<open>clear\<close>, \<open>status\<close> and \<open>serve\<close>, from their flags to the calls of client and server. The operating system,
  the terminal, the network and the libraries that format sizes and send notifications are the fields of the record \<open>env\<close>.
\<close>

subsection \<open>The environment\<close>

record ('a, 'f) env =
  os_Getenv :: "bytes \<Rightarrow> bytes"
  os_ReadFile :: "bytes \<Rightarrow> goerr + bytes"
  os_MkdirAll :: "bytes \<Rightarrow> goerr option"
  os_Create :: "bytes \<Rightarrow> goerr + sink"
  os_Stdout :: sink
  tty_Open :: "goerr option"
  tty_Fprint :: "goerr option"
  tty_ReadPasswordNoEcho :: "goerr + bytes"
  net_ResolveTCPAddr :: "bytes \<Rightarrow> goerr + 'a"
  units_FromHumanSize :: "bytes \<Rightarrow> goerr + 64 word"
  units_HumanSize :: "'f \<Rightarrow> bytes"
  gchalk :: "string \<Rightarrow> bytes \<Rightarrow> bytes"
  beeep_Notify :: "goerr option"

text \<open>
  What a connection offers: the methods of the generated client stub. The first argument of \<open>cn_Copy\<close> and \<open>cn_Paste\<close> is the timeout of the
  context, if it has one.
\<close>

record connection =
  cn_Copy :: "64 word option \<Rightarrow> (goerr + CopyStream outbox) \<times> (CopyStream list \<Rightarrow> goerr option)"
  cn_Paste :: "64 word option \<Rightarrow> PasteOption \<Rightarrow> 64 word \<Rightarrow> goerr + PastStream inbox"
  cn_Clear :: "goerr + unit"
  cn_Status :: "goerr + ServerStatus"

datatype ('p, 'k) transport = Insecure | TLS "('p, 'k) tls_config"

text \<open>\<^verbatim>\<open>grpc.DialContext\<close>: connection timeout, address, credentials.\<close>

type_synonym ('p, 'k) dialer = "64 word \<Rightarrow> bytes \<Rightarrow> ('p, 'k) transport \<Rightarrow> goerr + connection"

subsection \<open>Run and readSecret\<close>

text \<open>The exit code and what is printed on the standard error stream, for the error that the application returned.\<close>

definition Run :: "goerr option \<Rightarrow> nat \<times> bytes" where
  "Run err = (case err of Some e \<Rightarrow> (1, error_text e @ [10]) | None \<Rightarrow> (0, []))"

definition readSecret :: "('a, 'f) env \<Rightarrow> secret" where
  "readSecret E =
     (let pwd = os_Getenv E secretEnv
      in if pwd \<noteq> [] then Inr pwd
         else (case tty_Open E of
                 Some e \<Rightarrow> Inl e
               | None \<Rightarrow> (case tty_Fprint E of Some e \<Rightarrow> Inl e | None \<Rightarrow> tty_ReadPasswordNoEcho E)))"

subsection \<open>Connecting\<close>

text \<open>\<^verbatim>\<open>net.JoinHostPort\<close>: a host with a colon is put in brackets.\<close>

definition JoinHostPort :: "bytes \<Rightarrow> bytes \<Rightarrow> bytes" where
  "JoinHostPort host port = (if 58 \<in> set host then [91] @ host @ [93, 58] @ port else host @ [58] @ port)"

definition client_address :: "Context \<Rightarrow> bytes" where
  "client_address cc =
     (let host = cc_String cc hostFlag
      in JoinHostPort (if host = [] then defaultClientAddr else host) (format_uint (cc_Uint64 cc portFlag)))"

definition connexionTimeout :: "Context \<Rightarrow> 64 word" where
  "connexionTimeout cc = (let d = cc_Duration cc connTimeoutFlag in if d = 0 then defaultClientConnTimeout else d)"

definition read_file :: "('a, 'f) env \<Rightarrow> string \<Rightarrow> bytes \<Rightarrow> bytes result" where
  "read_file E what path =
     (case os_ReadFile E path of
        Inl e \<Rightarrow> Err (Wrapf (str (''unable to read '' @ what)) e)
      | Inr d \<Rightarrow> Ok d)"

text \<open>The three files of the TLS flags; the authority is optional.\<close>

definition read_credentials :: "('a, 'f) env \<Rightarrow> Context \<Rightarrow> (bytes \<times> bytes \<times> bytes) result" where
  "read_credentials E cc =
     bind_result (if cc_String cc tlsCaFlag \<noteq> [] then read_file E ''root certificate'' (cc_String cc tlsCaFlag) else Ok []) (\<lambda>ca.
     bind_result (read_file E ''certificate'' (cc_String cc tlsCertFlag)) (\<lambda>cert.
     bind_result (read_file E ''certificate key'' (cc_String cc tlsKeyFlag)) (\<lambda>key. Ok (ca, cert, key))))"

definition client_credentials :: "('a, 'f) env \<Rightarrow> ('p, 'k) x509 \<Rightarrow> Context \<Rightarrow> ('p, 'k) transport result" where
  "client_credentials E X cc =
     (if cc_Bool cc connInsecureFlag then Ok Insecure
      else if cc_String cc tlsCertFlag = [] then Err (Errorf (str ''tls certificate is required in secure connection mode''))
      else if cc_String cc tlsKeyFlag = [] then Err (Errorf (str ''tls certificate key is required in secure connection mode''))
      else bind_result (read_credentials E cc) (\<lambda>(ca, cert, key).
           bind_result (LoadCertificate X ca cert key \<lparr>tc_Certificates = [], tc_RootCAs = None, tc_ClientCAs = None, tc_ClientAuth = False\<rparr>)
             (\<lambda>tls. Ok (TLS tls))))"

definition client_connect ::
  "('a, 'f) env \<Rightarrow> ('p, 'k) x509 \<Rightarrow> ('p, 'k) dialer \<Rightarrow> Context \<Rightarrow> connection result" where
  "client_connect E X dial cc =
     bind_result (client_credentials E X cc) (\<lambda>cr. lift_sum (dial (connexionTimeout cc) (client_address cc) cr))"

definition call_timeout :: "Context \<Rightarrow> 64 word option" where
  "call_timeout cc = (let d = cc_Duration cc timeoutFlag in if d = 0 then None else Some d)"

text \<open>
  The error of a call: the context's if its deadline has passed, the call's otherwise. A context without a timeout has no error. \<open>ctx_err\<close> is what
  the context reports after the call.
\<close>

definition call_error :: "Context \<Rightarrow> goerr option \<Rightarrow> string \<Rightarrow> goerr \<Rightarrow> goerr" where
  "call_error cc ctx_err what e =
     (case (if call_timeout cc = None then None else ctx_err) of
        Some c \<Rightarrow> Wrapf (str what) (if errors_is c DeadlineExceeded then c else e)
      | None \<Rightarrow> Wrapf (str what) e)"

subsection \<open>copy.go\<close>

definition hex_digit :: "nat \<Rightarrow> byte" where
  "hex_digit n = (if n < 10 then 48 + of_nat n else 87 + of_nat n)"

definition hex :: "bytes \<Rightarrow> bytes" where
  "hex p = concat (map (\<lambda>b. [hex_digit (unat b div 16), hex_digit (unat b mod 16)]) p)"

definition bool_text :: "bool \<Rightarrow> bytes" where
  "bool_text b = (if b then str ''true'' else str ''false'')"

definition line :: "string \<Rightarrow> bytes \<Rightarrow> string \<Rightarrow> bytes result" where
  "line label v unit = Ok (str label @ v @ str unit @ [10])"

text \<open>The lines are formatted and printed one after the other.\<close>

fun print_lines :: "bytes result list \<Rightarrow> ui \<Rightarrow> unit result \<times> ui" where
  "print_lines [] u = (Ok (), u)"
| "print_lines (r # rs) u = and_then (r, u) (\<lambda>t u. and_then (ui_Infof u t) (\<lambda>_. print_lines rs))"

definition summary_lines :: "('a, 'f) env \<Rightarrow> ('k, 'e, 'z, 'x, 'y, 'g, 'f) clib \<Rightarrow> 'f Summary \<Rightarrow> bytes result list" where
  "summary_lines E C sm =
     [bind_result (formatDuration (sm_CopyDuration sm)) (\<lambda>t. line ''Duration     : '' t ''''),
      line ''Read         : '' (units_HumanSize E (float64 C (word_of_nat (sm_BytesRead sm)))) '''',
      line ''Sent         : '' (units_HumanSize E (float64 C (word_of_nat (sm_ByteWrite sm)))) ''''] @
     (if sm_Checksum sm \<noteq> [] then [line ''Digest       : '' (hex (sm_Checksum sm)) ''''] else []) @
     [line ''Compressed   : '' (bool_text (sm_Compressed sm)) '''',
      line ''Encrypted    : '' (bool_text (sm_Encrypted sm)) '''',
      line ''Upload speed : '' (units_HumanSize E (sm_TransferRate sm)) ''/s'']"

definition copy_options :: "Context \<Rightarrow> 64 word \<Rightarrow> copy_option list" where
  "copy_options cc chunkSize =
     [WithTransferRate chunkSize, WithChecksum (cc_Bool cc checksumFlag), WithTtl (cc_Duration cc ttlFlag),
      WithCompression (cc_Bool cc compressFlag), WithEncryption (\<not> cc_Bool cc noPasswordFlag)]"

definition transfer_rate :: "('a, 'f) env \<Rightarrow> Context \<Rightarrow> 64 word result" where
  "transfer_rate E cc = lift_sum (units_FromHumanSize E (cc_String cc transferRateFlag))"

text \<open>
  The goroutine's call, on an open connection: \<open>stdin\<close> is read through \<open>Read\<close>, \<open>g\<close> is the random source and \<open>d\<close> the elapsed time.
\<close>

definition copy_call ::
  "('a, 'f) env \<Rightarrow> ('k, 'e, 'z, 'x, 'y, 'g, 'f) clib \<Rightarrow> 'r io_read \<Rightarrow> 'r \<Rightarrow> 'g \<Rightarrow> 64 word \<Rightarrow> Context \<Rightarrow> 64 word \<Rightarrow> connection \<Rightarrow>
     'f Summary result \<times> CopyStream list" where
  "copy_call E C Read stdin g d cc chunkSize conn =
     (let (opened, reply) = cn_Copy conn (call_timeout cc)
      in Client_Copy C opened reply Read stdin (readSecret E) g d (copy_options cc chunkSize))"

text \<open>\<open>sig\<close>: a signal arrives before the result of the call.\<close>

definition copy_run ::
  "('a, 'f) env \<Rightarrow> ('p, 'q) x509 \<Rightarrow> ('p, 'q) dialer \<Rightarrow> ('k, 'e, 'z, 'x, 'y, 'g, 'f) clib \<Rightarrow> 'r io_read \<Rightarrow> 'r \<Rightarrow> 'g \<Rightarrow> 64 word \<Rightarrow> bool \<Rightarrow>
     goerr option \<Rightarrow> Context \<Rightarrow> ui \<Rightarrow> unit result \<times> ui" where
  "copy_run E X dial C Read stdin g d sig ctx_err cc u =
     and_then (transfer_rate E cc, u) (\<lambda>chunkSize u.
     and_then (client_connect E X dial cc, u) (\<lambda>conn u.
       if sig then (Err (Errorf (str ''copy canceled'')), u)
       else (case fst (copy_call E C Read stdin g d cc chunkSize conn) of
               Err e \<Rightarrow> (Err (call_error cc ctx_err ''copy failed'' e), u)
             | Panic p \<Rightarrow> (Panic p, u)
             | Loop \<Rightarrow> (Loop, u)
             | Ok sm \<Rightarrow>
                 if cc_Bool cc verboseFlag then
                   and_then (ui_Successf (gchalk E) u (str ''Successfully copied data to web clipboard!'' @ [10, 10])) (\<lambda>_.
                     print_lines (summary_lines E C sm))
                 else (Ok (), u))))"

subsection \<open>paste.go\<close>

datatype destination = Stdout | File bytes | Discard

definition paste_output :: "('a, 'f) env \<Rightarrow> Context \<Rightarrow> (destination \<times> sink) result" where
  "paste_output E cc =
     (let path = cc_String cc fileFlag
      in bind_result
           (if path \<noteq> [] then bind_result (lift_sum (os_Create E path)) (\<lambda>w. Ok (File path, w)) else Ok (Stdout, os_Stdout E))
           (\<lambda>out. Ok (if cc_Bool cc discardFlag then (Discard, \<lparr>sk_data = [], sk_errs = []\<rparr>) else out)))"

text \<open>
  The outcome has the destination that was used, with what was written to it; what an interrupted call has written is left open, and not counted.
\<close>

definition paste_run ::
  "('a, 'f) env \<Rightarrow> ('p, 'q) x509 \<Rightarrow> ('p, 'q) dialer \<Rightarrow> ('k, 'e, 'z, 'x, 'y, 'g, 'f) clib \<Rightarrow> bool \<Rightarrow> goerr option \<Rightarrow> Context \<Rightarrow>
     unit result \<times> (destination \<times> sink) option" where
  "paste_run E X dial C sig ctx_err cc =
     and_then (transfer_rate E cc, None) (\<lambda>chunkSize _.
     and_then (client_connect E X dial cc, None) (\<lambda>conn _.
     and_then (paste_output E cc, None) (\<lambda>(out, w) _.
       let (r, w1) = Client_Paste C (cn_Paste conn (call_timeout cc)) (readSecret E) w [PasteTransferRate chunkSize]
       in if sig then (Err (Errorf (str ''paste canceled'')), Some (out, w))
          else (case r of
                  Err e \<Rightarrow> (Err (call_error cc ctx_err ''paste failed'' e), Some (out, w1))
                | Panic p \<Rightarrow> (Panic p, Some (out, w1))
                | Loop \<Rightarrow> (Loop, Some (out, w1))
                | Ok _ \<Rightarrow> (lift_err (beeep_Notify E), Some (out, w1))))))"

subsection \<open>clear.go and status.go\<close>

definition clear_run :: "('a, 'f) env \<Rightarrow> ('p, 'q) x509 \<Rightarrow> ('p, 'q) dialer \<Rightarrow> Context \<Rightarrow> unit result" where
  "clear_run E X dial cc = bind_result (client_connect E X dial cc) (\<lambda>conn. Client_Clear (cn_Clear conn))"

definition status_lines :: "('a, 'f) env \<Rightarrow> 'f ServerConfig \<Rightarrow> bytes result list" where
  "status_lines E st =
     [line ''Webcb server status'' [] '''',
      line ''DB Size           : '' (units_HumanSize E (sv_DbSize st)) '''',
      line ''DB Path           : '' (sv_DbPath st) '''',
      line ''Max accepted rate : '' (units_HumanSize E (sv_GrpcMaxReceiveBytes st)) '''',
      bind_result (formatDuration (sv_GcInterval st)) (\<lambda>t. line ''GC Interval       : '' t ''''),
      line ''Dev mode enable   : '' (bool_text (sv_DevMOde st)) '''',
      line ''MTLS enable       : '' (bool_text (sv_GrpcMTLS st)) '''']"

definition status_run ::
  "('a, 'f) env \<Rightarrow> ('p, 'q) x509 \<Rightarrow> ('p, 'q) dialer \<Rightarrow> ('k, 'e, 'z, 'x, 'y, 'g, 'f) clib \<Rightarrow> Context \<Rightarrow> ui \<Rightarrow> unit result \<times> ui" where
  "status_run E X dial C cc u =
     and_then (client_connect E X dial cc, u) (\<lambda>conn u.
     and_then (Client_Status C (cn_Status conn), u) (\<lambda>st. print_lines (status_lines E st)))"

subsection \<open>server.go\<close>

definition server_address :: "Context \<Rightarrow> bytes" where
  "server_address cc =
     (let host = cc_String cc hostFlag
      in JoinHostPort (if host = [] then defaultServerAddr else host) (format_uint (cc_Uint64 cc portFlag)))"

definition dbGcInterval :: "Context \<Rightarrow> 64 word" where
  "dbGcInterval cc = (let d = cc_Duration cc gcIntervalFlag in if sint d < sint MinGcInterval then MinGcInterval else d)"

text \<open>
  The location of the database: whether it is in memory and its path, and the directories that are made. The code asks for
  \<^verbatim>\<open>cc.String(filepath.Clean(pathFlag))\<close>, where \<^verbatim>\<open>Clean\<close> leaves the name of the flag as it is, and decides whether to make the
  directory by \<^verbatim>\<open>cc.String(path)\<close>, the flag that has the path as its name.
\<close>

definition db_location :: "('a, 'f) env \<Rightarrow> Context \<Rightarrow> (bool \<times> bytes) result \<times> bytes list" where
  "db_location E cc =
     (let dev = cc_Bool cc devModeFlag; inMemory = (dev \<and> cc_String cc pathFlag = [])
      in if \<not> dev \<and> cc_String cc pathFlag = []
         then (Err (Errorf (str ''a path is required to persist clipboard data when dev mode is disable'')), [])
         else (let path = cc_String cc pathFlag
               in if cc_String cc path \<noteq> []
                  then (case os_MkdirAll E path of Some e \<Rightarrow> (Err e, [path]) | None \<Rightarrow> (Ok (inMemory, path), [path]))
                  else (Ok (inMemory, path), [])))"

definition server_credentials :: "('a, 'f) env \<Rightarrow> Context \<Rightarrow> (bytes \<times> bytes \<times> bytes) result" where
  "server_credentials E cc = (if cc_Bool cc devModeFlag then Ok ([], [], []) else read_credentials E cc)"

definition server_options :: "Context \<Rightarrow> bytes \<times> bytes \<times> bytes \<Rightarrow> server_option list" where
  "server_options cc creds =
     (case creds of (ca, cert, key) \<Rightarrow>
       [WithGrpcMaxRecvSize (cc_Int cc grpcMaxReceivedBytesFlag), WithCredentials cert key, WithCertificateAuthority ca,
        WithDevMode (cc_Bool cc devModeFlag)])"

text \<open>The database, with the directories that were made, and the server on it.\<close>

definition serve_db ::
  "('a, 'f) env \<Rightarrow> ('d, 't, 'w, 'u) lib \<Rightarrow> 'u \<Rightarrow> Context \<Rightarrow> ('d, 'u) BadgerDB result \<times> bytes list" where
  "serve_db E L entropy cc =
     and_then (lift_sum (net_ResolveTCPAddr E (server_address cc)), []) (\<lambda>_ _.
     and_then (db_location E cc) (\<lambda>(inMemory, path) dirs.
       (NewBadgerDB L \<lparr>bc_Path = path, bc_InMemory = inMemory, bc_GcInterval = dbGcInterval cc, bc_ValueSize = 0\<rparr> entropy, dirs)))"

definition serve_new ::
  "('a, 'f) env \<Rightarrow> ('p, 'q) x509 \<Rightarrow> Context \<Rightarrow> ('d, 'u) BadgerDB \<Rightarrow> ('d, 'u, 'p, 'q) Server result" where
  "serve_new E X cc db = bind_result (server_credentials E cc) (\<lambda>creds. NewServer X db (server_options cc creds))"

text \<open>
  The server then runs until it fails, which is only logged, or a signal arrives; \<open>stop\<close> is the outcome of waiting for its calls (see \<open>Server_Stop\<close>)
  and \<open>final\<close> the database at that time. The database is closed when the command returns, whatever the outcome.
\<close>

definition server_run ::
  "('a, 'f) env \<Rightarrow> ('d, 't, 'w, 'u) lib \<Rightarrow> ('p, 'q) x509 \<Rightarrow> 'u \<Rightarrow> Context \<Rightarrow> bool \<times> goerr \<Rightarrow> (('d, 'u, 'p, 'q) Server \<Rightarrow> ('d, 'u) BadgerDB) \<Rightarrow>
     unit result \<times> stop_call list \<times> ('d, 'u) BadgerDB option" where
  "server_run E L X entropy cc stop final =
     (case fst (serve_db E L entropy cc) of
        Ok db \<Rightarrow>
          (case serve_new E X cc db of
             Ok srv \<Rightarrow> (Ok (), snd (Server_Stop (fst stop) (snd stop)), Some (snd (Close L (final srv))))
           | Err e \<Rightarrow> (Err e, [], Some (snd (Close L db)))
           | Panic p \<Rightarrow> (Panic p, [], Some (snd (Close L db)))
           | Loop \<Rightarrow> (Loop, [], Some db))
      | Err e \<Rightarrow> (Err e, [], None)
      | Panic p \<Rightarrow> (Panic p, [], None)
      | Loop \<Rightarrow> (Loop, [], None))"

end
