(* ===== verification/Client_Laws.thy ===== *)
theory Client_Laws
  imports Client_Calls
begin

text \<open>
  What the results about the client assume of the libraries it calls, and what reading from a reader means.

  \<open>delivers Read Q e r D\<close>: whatever non-empty buffers are used, reading from \<open>r\<close> yields the bytes \<open>D\<close>, after finitely many reads, and then
  the error \<open>e\<close>, in a state where \<open>Q\<close> holds. \<open>fails Read r\<close>: reading from \<open>r\<close> ends, after finitely many reads, in an error that is not \<open>io.EOF\<close>.
\<close>

inductive delivers :: "'r io_read \<Rightarrow> ('r \<Rightarrow> bool) \<Rightarrow> goerr \<Rightarrow> 'r \<Rightarrow> bytes \<Rightarrow> bool" for Read Q e where
  deliversI: "(\<And>p. 0 < length p \<Longrightarrow> \<exists>n err q r'. Read r p = (Ok (n, err), q, r') \<and> length q = length p \<and> n \<le> length p \<and>
      n \<le> length D \<and> take n q = take n D \<and>
      (err = None \<and> delivers Read Q e r' (drop n D) \<or> err = Some e \<and> n = length D \<and> Q r')) \<Longrightarrow>
    delivers Read Q e r D"

inductive fails :: "'r io_read \<Rightarrow> 'r \<Rightarrow> bool" for Read where
  failsI: "(\<And>p. 0 < length p \<Longrightarrow> \<exists>n err q r'. Read r p = (Ok (n, err), q, r') \<and> length q = length p \<and> n \<le> length p \<and>
      (err = None \<and> fails Read r' \<or> (\<exists>x. err = Some x \<and> \<not> errors_is x EOF))) \<Longrightarrow>
    fails Read r"

lemma delivers_sim:
  assumes "delivers Read Q e r D"
    and step: "\<And>r p. Read' (f r) p = (let (x, q, r') = Read r p in (x, q, f r'))" and "\<And>r. Q r \<Longrightarrow> Q' (f r)"
  shows "delivers Read' Q' e (f r) D"
  using assms(1)
proof (induction rule: delivers.induct)
  case (deliversI r D)
  show ?case
  proof (rule delivers.deliversI)
    fix p :: bytes
    assume "0 < length p"
    from deliversI [OF this] obtain n err q r' where
      "Read r p = (Ok (n, err), q, r')" "length q = length p" "n \<le> length p" "n \<le> length D" "take n q = take n D"
      "err = None \<and> delivers Read' Q' e (f r') (drop n D) \<or> err = Some e \<and> n = length D \<and> Q r'" by blast
    with step [of r p] assms(3) show "\<exists>n err q r'. Read' (f r) p = (Ok (n, err), q, r') \<and> length q = length p \<and> n \<le> length p \<and>
        n \<le> length D \<and> take n q = take n D \<and>
        (err = None \<and> delivers Read' Q' e r' (drop n D) \<or> err = Some e \<and> n = length D \<and> Q' r')" by auto
  qed
qed

lemma fails_sim:
  assumes "fails Read r" and step: "\<And>r p. Read' (f r) p = (let (x, q, r') = Read r p in (x, q, f r'))"
  shows "fails Read' (f r)"
  using assms(1)
proof (induction rule: fails.induct)
  case (failsI r)
  show ?case
  proof (rule fails.failsI)
    fix p :: bytes
    assume "0 < length p"
    from failsI [OF this] obtain n err q r' where
      "Read r p = (Ok (n, err), q, r')" "length q = length p" "n \<le> length p"
      "err = None \<and> fails Read' (f r') \<or> (\<exists>x. err = Some x \<and> \<not> errors_is x EOF)" by blast
    with step [of r p] show "\<exists>n err q r'. Read' (f r) p = (Ok (n, err), q, r') \<and> length q = length p \<and> n \<le> length p \<and>
        (err = None \<and> fails Read' r' \<or> (\<exists>x. err = Some x \<and> \<not> errors_is x EOF))" by auto
  qed
qed

text \<open>A reader keeps reporting \<open>io.EOF\<close> once it has done so.\<close>

definition sticky :: "'r io_read \<Rightarrow> ('r \<Rightarrow> bool) \<Rightarrow> bool" where
  "sticky Read E \<longleftrightarrow> (\<forall>r p. E r \<longrightarrow> (\<exists>q r'. Read r p = (Ok (0, Some EOF), q, r') \<and> length q = length p \<and> E r'))"

definition feeding :: "'r io_read \<Rightarrow> ('r \<Rightarrow> bool) \<Rightarrow> 'r \<Rightarrow> bytes \<Rightarrow> bool" where
  "feeding Read E r D \<longleftrightarrow> delivers Read E EOF r D \<or> D = [] \<and> E r"

subsection \<open>Transforming writers\<close>

text \<open>The pieces a writer hands down for a sequence of writes, whether it reported no error, and its state.\<close>

fun run_writes :: "('w \<Rightarrow> bytes \<Rightarrow> pieces \<times> 'w) \<Rightarrow> 'w \<Rightarrow> bytes list \<Rightarrow> bytes list \<times> bool \<times> 'w" where
  "run_writes f w [] = ([], True, w)"
| "run_writes f w (p # ps) =
     (let (x, w1) = f w p; (outs, ok, w2) = run_writes f w1 ps in (fst x @ outs, snd x = None \<and> ok, w2))"

definition emitted :: "('w \<Rightarrow> bytes \<Rightarrow> pieces \<times> 'w) \<Rightarrow> ('w \<Rightarrow> pieces) \<Rightarrow> 'w \<Rightarrow> bytes list \<Rightarrow> bytes list" where
  "emitted f close w ps = (let (outs, ok, w1) = run_writes f w ps in outs @ fst (close w1))"

definition emits_ok :: "('w \<Rightarrow> bytes \<Rightarrow> pieces \<times> 'w) \<Rightarrow> ('w \<Rightarrow> pieces) \<Rightarrow> 'w \<Rightarrow> bytes list \<Rightarrow> bool" where
  "emits_ok f close w ps \<longleftrightarrow> (let (outs, ok, w1) = run_writes f w ps in ok \<and> snd (close w1) = None)"

lemma run_writes_append:
  "run_writes f w (ps @ qs) =
     (let (o1, k1, w1) = run_writes f w ps; (o2, k2, w2) = run_writes f w1 qs in (o1 @ o2, k1 \<and> k2, w2))"
  by (induction ps arbitrary: w) (auto split: prod.splits)

subsection \<open>The laws\<close>

text \<open>
  \<^item> Random nonces have the length asked for, SHA-256 sums 32 bytes, and the nonce of the cipher at most 24.
  \<^item> What the \<^verbatim>\<open>EncryptWriter\<close> wrote is read back by the \<^verbatim>\<open>DecryptReader\<close> of the same key and nonce.
  \<^item> What the zstd encoder wrote is read back by the decoder, and a decoder can always be made.
  \<^item> Both readers read what is below them to its end, and report its errors.
\<close>

definition cipher_laws :: "('k, 'e, 'z, 'x, 'y, 'g, 'f) clib \<Rightarrow> bool" where
  "cipher_laws C \<longleftrightarrow>
     (\<forall>k. sio_NonceSize C k \<le> 24) \<and>
     (\<forall>k iv. length iv = sio_NonceSize C k \<longrightarrow> (\<exists>x. sio_DecryptReader C k iv = Ok x)) \<and>
     (\<forall>k iv x ps Q r. sio_DecryptReader C k iv = Ok x \<longrightarrow>
        emits_ok (sio_Write C) (sio_Close C) (sio_EncryptWriter C k iv) ps \<longrightarrow>
        delivers gr_Read Q EOF r (concat (emitted (sio_Write C) (sio_Close C) (sio_EncryptWriter C k iv) ps)) \<longrightarrow>
        delivers (sio_Read C gr_Read) (\<lambda>s. Q (snd s)) EOF (x, r) (concat ps)) \<and>
     (\<forall>k iv x r. sio_DecryptReader C k iv = Ok x \<longrightarrow> fails gr_Read r \<longrightarrow> fails (sio_Read C gr_Read) (x, r))"

text \<open>
  Authenticity, in the ideal form: the \<^verbatim>\<open>DecryptReader\<close> accepts nothing but what an \<^verbatim>\<open>EncryptWriter\<close> of the same key and nonce wrote. A real
  cipher gives this up to a negligible probability; only the result on altered data uses it.
\<close>

definition authentic :: "('k, 'e, 'z, 'x, 'y, 'g, 'f) clib \<Rightarrow> bool" where
  "authentic C \<longleftrightarrow>
     (\<forall>k iv x Q r c. sio_DecryptReader C k iv = Ok x \<longrightarrow> delivers gr_Read Q EOF r c \<longrightarrow>
        (\<nexists>ps. emits_ok (sio_Write C) (sio_Close C) (sio_EncryptWriter C k iv) ps \<and>
           c = concat (emitted (sio_Write C) (sio_Close C) (sio_EncryptWriter C k iv) ps)) \<longrightarrow>
        fails (sio_Read C gr_Read) (x, r))"

definition zstd_laws :: "('k, 'e, 'z, 'x, 'y, 'g, 'f) clib \<Rightarrow> bool" where
  "zstd_laws C \<longleftrightarrow>
     (\<exists>y. zstd_NewReader C = Inr y) \<and>
     (\<forall>z y ps Q src. zstd_NewWriter C = Inr z \<longrightarrow> zstd_NewReader C = Inr y \<longrightarrow> emits_ok (zstd_Write C) (zstd_Close C) z ps \<longrightarrow>
        delivers (source_Read C) Q EOF src (concat (emitted (zstd_Write C) (zstd_Close C) z ps)) \<longrightarrow>
        delivers (zstd_Read C (source_Read C)) (\<lambda>s. Q (snd s)) EOF (y, src) (concat ps)) \<and>
     (\<forall>y src. zstd_NewReader C = Inr y \<longrightarrow> fails (source_Read C) src \<longrightarrow> fails (zstd_Read C (source_Read C)) (y, src))"

definition clib_laws :: "('k, 'e, 'z, 'x, 'y, 'g, 'f) clib \<Rightarrow> bool" where
  "clib_laws C \<longleftrightarrow>
     (\<forall>g n. length (fst (rand_Read C g n)) = n) \<and> (\<forall>d. length (sha256_Sum C d) = sha256_Size) \<and>
     cipher_laws C \<and> zstd_laws C"

lemma clib_laws_sizes:
  "clib_laws C \<Longrightarrow> length (fst (rand_Read C g n)) = n" "clib_laws C \<Longrightarrow> length (sha256_Sum C d) = sha256_Size"
  by (simp_all add: clib_laws_def)

lemma clib_laws_nonce: "clib_laws C \<Longrightarrow> sio_NonceSize C k \<le> 24"
  by (simp add: clib_laws_def cipher_laws_def)

lemma clib_laws_cipher:
  assumes "clib_laws C"
  shows "length iv = sio_NonceSize C k \<Longrightarrow> \<exists>x. sio_DecryptReader C k iv = Ok x"
    and "sio_DecryptReader C k iv = Ok x \<Longrightarrow> emits_ok (sio_Write C) (sio_Close C) (sio_EncryptWriter C k iv) ps \<Longrightarrow>
      delivers gr_Read Q EOF r (concat (emitted (sio_Write C) (sio_Close C) (sio_EncryptWriter C k iv) ps)) \<Longrightarrow>
      delivers (sio_Read C gr_Read) (\<lambda>s. Q (snd s)) EOF (x, r) (concat ps)"
    and "sio_DecryptReader C k iv = Ok x \<Longrightarrow> fails gr_Read r \<Longrightarrow> fails (sio_Read C gr_Read) (x, r)"
  using assms unfolding clib_laws_def cipher_laws_def by blast+

lemma clib_laws_zstd:
  assumes "clib_laws C"
  shows "\<exists>y. zstd_NewReader C = Inr y"
    and "zstd_NewWriter C = Inr z \<Longrightarrow> zstd_NewReader C = Inr y \<Longrightarrow> emits_ok (zstd_Write C) (zstd_Close C) z ps \<Longrightarrow>
      delivers (source_Read C) Q EOF src (concat (emitted (zstd_Write C) (zstd_Close C) z ps)) \<Longrightarrow>
      delivers (zstd_Read C (source_Read C)) (\<lambda>s. Q (snd s)) EOF (y, src) (concat ps)"
    and "zstd_NewReader C = Inr y \<Longrightarrow> fails (source_Read C) src \<Longrightarrow> fails (zstd_Read C (source_Read C)) (y, src)"
  using assms unfolding clib_laws_def zstd_laws_def by blast+

end
