(* ===== verification/Client_Copy.thy ===== *)
theory Client_Copy
  imports Client_Laws
begin

text \<open>
  The sending side of the client: \<open>Client_Copy\<close> reads its input to the end in blocks of the chunk size, passes them through the writers
  and, when it succeeds, has sent the info header, the transformed data cut into chunks of that size, and the checksum of the input.
\<close>

subsection \<open>io.ReadAtLeast\<close>

lemma feeding_step:
  assumes "feeding Read E r D" and "sticky Read E" and "0 < length p"
  shows "\<exists>n err q r'. Read r p = (Ok (n, err), q, r') \<and> length q = length p \<and> n \<le> length p \<and> n \<le> length D \<and>
    take n q = take n D \<and> (err = None \<and> delivers Read E EOF r' (drop n D) \<or> err = Some EOF \<and> n = length D \<and> E r')"
  using assms(1) unfolding feeding_def
proof
  assume "delivers Read E EOF r D"
  with assms(3) show ?thesis by (auto elim: delivers.cases)
next
  assume "D = [] \<and> E r"
  with assms(2) show ?thesis unfolding sticky_def by (metis append_Nil drop_0 le0 length_0_conv list.size(3) take0)
qed

text \<open>What a call reads: a full block, or the rest of the input with the matching error.\<close>

definition read_block :: "'r io_read \<Rightarrow> ('r \<Rightarrow> bool) \<Rightarrow> nat \<Rightarrow> bytes \<Rightarrow> (nat \<times> goerr option) result \<times> bytes \<times> 'r \<Rightarrow> bool" where
  "read_block Read E N D x \<longleftrightarrow> (let (res, buf, r) = x in
     length buf = N \<and>
     (if N \<le> length D then res = Ok (N, None) \<and> take N buf = take N D \<and> feeding Read E r (drop N D)
      else res = Ok (length D, Some (if D = [] then EOF else ErrUnexpectedEOF)) \<and> take (length D) buf = D \<and> E r))"

lemma take_append_take:
  "length pre \<le> length buf \<Longrightarrow> take (length pre) buf = pre \<Longrightarrow> take n q = take n d \<Longrightarrow> n \<le> length q \<Longrightarrow> n \<le> length d \<Longrightarrow>
   take (length pre + n) (take (length pre) buf @ q) = pre @ take n d"
  by simp

lemma read_at_least_more:
  assumes sticky: "sticky Read E" and "delivers Read E EOF r D" and "length pre < length buf" and "take (length pre) buf = pre"
  shows "\<exists>x. read_at_least Read (length buf) buf (length pre) r = Some x \<and> read_block Read E (length buf) (pre @ D) x"
  using assms(2-4)
proof (induction arbitrary: pre buf rule: delivers.induct)
  case (deliversI r D)
  have "0 < length (drop (length pre) buf)" using deliversI.prems(1) by simp
  from deliversI.IH [OF this] obtain n err q r' where
    rd: "Read r (drop (length pre) buf) = (Ok (n, err), q, r')" "length q = length buf - length pre" "n \<le> length buf - length pre"
      "n \<le> length D" "take n q = take n D" and
    nx: "err = None \<and> delivers Read E EOF r' (drop n D) \<and>
          (\<forall>pre buf. length pre < length buf \<longrightarrow> take (length pre) buf = pre \<longrightarrow>
            (\<exists>x. read_at_least Read (length buf) buf (length pre) r' = Some x \<and> read_block Read E (length buf) (pre @ drop n D) x)) \<or>
        err = Some EOF \<and> n = length D \<and> E r'"
    by auto
  let ?buf = "take (length pre) buf @ q" and ?pre = "pre @ take n D"
  have len: "length ?buf = length buf" "length ?pre = length pre + n" using rd(2,4) deliversI.prems(1) by simp_all
  have pre: "take (length ?pre) ?buf = ?pre"
    using rd(2,3,4,5) deliversI.prems by simp
  have all: "?pre @ drop n D = pre @ D" by simp
  from nx show ?case
  proof
    assume e: "err = None \<and> delivers Read E EOF r' (drop n D) \<and>
          (\<forall>pre buf. length pre < length buf \<longrightarrow> take (length pre) buf = pre \<longrightarrow>
            (\<exists>x. read_at_least Read (length buf) buf (length pre) r' = Some x \<and> read_block Read E (length buf) (pre @ drop n D) x))"
    have run: "read_at_least Read (length buf) buf (length pre) r = read_at_least Read (length buf) ?buf (length pre + n) r'"
      using rd(1) e deliversI.prems(1) by (subst read_at_least.simps) simp
    show ?case
    proof (cases "length ?pre < length ?buf")
      case True
      with e pre obtain x where "read_at_least Read (length ?buf) ?buf (length ?pre) r' = Some x"
        "read_block Read E (length ?buf) (?pre @ drop n D) x" by blast
      with run len all show ?thesis by auto
    next
      case False
      then have full: "length pre + n = length buf" using len rd(3) deliversI.prems(1) by auto
      then have "read_at_least Read (length buf) ?buf (length pre + n) r' = Some (Ok (length buf, None), ?buf, r')"
        by (subst read_at_least.simps) simp
      moreover have "take (length buf) ?buf = take (length buf) (pre @ D)"
        using pre len full rd(4) by (metis append_assoc append_take_drop_id le_refl take_all take_append length_append take_add append_eq_conv_conj)
      moreover have "feeding Read E r' (drop (length buf) (pre @ D))"
        using e full rd(4) by (simp add: feeding_def flip: full)
      ultimately show ?thesis using run full len rd(4) by (auto simp: read_block_def)
    qed
  next
    assume e: "err = Some EOF \<and> n = length D \<and> E r'"
    have run: "read_at_least Read (length buf) buf (length pre) r = Some (Ok (length pre + n,
        if length buf \<le> length pre + n then None else if 0 < length pre + n then Some ErrUnexpectedEOF else Some EOF), ?buf, r')"
      using rd(1) e deliversI.prems(1) by (subst read_at_least.simps) auto
    have D: "?pre = pre @ D" using e by simp
    show ?case
      using run e len pre D rd(3) deliversI.prems(1) by (auto simp: read_block_def feeding_def)
  qed
qed

lemma ReadAtLeast_spec:
  assumes "feeding Read E r D" and "sticky Read E" and "0 < N" and "length buf = N"
  shows "\<exists>x. ReadAtLeast Read r buf N = Some x \<and> read_block Read E N D x"
  using assms(1) unfolding feeding_def
proof
  assume "delivers Read E EOF r D"
  from read_at_least_more [OF assms(2) this, of "[]" buf] assms(3,4) show ?thesis by (auto simp: ReadAtLeast_def)
next
  assume D: "D = [] \<and> E r"
  then obtain q r' where "Read r buf = (Ok (0, Some EOF), q, r')" "length q = length buf" "E r'"
    using assms(2) unfolding sticky_def by blast
  with D assms(3,4) show ?thesis
    by (auto simp: ReadAtLeast_def read_block_def read_at_least.simps [of Read N buf 0 r])
qed

subsection \<open>The writers\<close>

text \<open>
  \<open>sender_at log0 W N cnt\<close>: since the messages \<open>log0\<close>, the bytes \<open>W\<close> went into the counted writer with a buffer of \<open>N\<close> bytes; full chunks of
  them are sent, the rest is buffered.
\<close>

definition sender_at :: "CopyStream list \<Rightarrow> bytes \<Rightarrow> nat \<Rightarrow> client_sender Writer Counter \<Rightarrow> bool" where
  "sender_at log0 W N cnt \<longleftrightarrow>
     writer_inv (cn_x cnt) \<and> length (w_t (cn_x cnt)) = N \<and> cn_sent cnt = length W \<and>
     (\<exists>cs. out_sent (cl_c (w_s (cn_x cnt))) = log0 @ map copy_chunk cs \<and> (\<forall>c \<in> set cs. length c = N) \<and>
        concat cs @ buffered (cn_x cnt) = W)"

lemma cnt_Write_ok:
  assumes "sender_at log0 W N cnt" and "cnt_Write cnt p = (Ok n, cnt')"
  shows "sender_at log0 (W @ p) N cnt'"
proof -
  from assms(2) obtain w' where w: "Writer_Write client_SendChunk (cn_x cnt) p = (Ok n, w')"
    and cnt': "cnt' = cnt\<lparr>cn_x := w', cn_sent := cn_sent cnt + n\<rparr>"
    by (auto simp: cnt_Write_def Counter_Write_def split: prod.splits result.splits)
  have inv: "writer_inv (cn_x cnt)" using assms(1) by (simp add: sender_at_def)
  note ok = client_send.Write_ok [OF inv w]
  obtain cs where cs: "out_sent (cl_c (w_s (cn_x cnt))) = log0 @ map copy_chunk cs" "\<forall>c \<in> set cs. length c = N"
    "concat cs @ buffered (cn_x cnt) = W" "length (w_t (cn_x cnt)) = N" "cn_sent cnt = length W"
    using assms(1) by (auto simp: sender_at_def)
  obtain ds where ds: "out_sent (cl_c (w_s w')) = out_sent (cl_c (w_s (cn_x cnt))) @ map copy_chunk ds"
    "concat ds @ buffered w' = buffered (cn_x cnt) @ p" "list_all (\<lambda>c. length c = N) ds"
    using ok(4) cs(4) by auto
  have "concat (cs @ ds) @ buffered w' = W @ p" using ds(2) cs(3) by auto
  then show ?thesis
    using ok(1-3) cs ds cnt' by (auto simp: sender_at_def list_all_iff intro!: exI [of _ "cs @ ds"])
qed

lemma cnt_Write_returns: "sender_at log0 W N cnt \<Longrightarrow> returns (fst (cnt_Write cnt p))"
  using client_send.Write_returns [of "cn_x cnt" p]
  by (cases "Writer_Write client_SendChunk (cn_x cnt) p"; cases "fst (Writer_Write client_SendChunk (cn_x cnt) p)")
     (auto simp: sender_at_def cnt_Write_def Counter_Write_def)

text \<open>
  The contract of a writer towards what writes to it: \<open>at qs s\<close> relates the pieces written so far to its state; a write returns, and when it
  succeeds its piece has been added.
\<close>

locale piece_writer =
  fixes Write :: "'s stream_write"
    and at :: "bytes list \<Rightarrow> 's \<Rightarrow> bool"
  assumes write_ok: "at qs s \<Longrightarrow> Write s p = (Ok n, s') \<Longrightarrow> at (qs @ [p]) s'"
    and write_returns: "at qs s \<Longrightarrow> returns (fst (Write s p))"
begin

lemma pieces_ok: "at qs s \<Longrightarrow> write_pieces Write ps s = (Ok u, s') \<Longrightarrow> at (qs @ ps) s'"
proof (induction ps arbitrary: qs s)
  case (Cons p ps)
  then obtain n s1 where "Write s p = (Ok n, s1)" "write_pieces Write ps s1 = (Ok u, s')" by (auto simp: and_then_Ok_iff)
  with Cons write_ok have "at ((qs @ [p]) @ ps) s'" by blast
  then show ?case by simp
qed simp

lemma pieces_returns: "at qs s \<Longrightarrow> returns (fst (write_pieces Write ps s))"
proof (induction ps arbitrary: qs s)
  case (Cons p ps)
  obtain r s1 where w: "Write s p = (r, s1)" by fastforce
  show ?case
  proof (cases r)
    case (Ok n)
    then have "at (qs @ [p]) s1" using write_ok [OF Cons.prems, of p n s1] w by simp
    from Cons.IH [OF this] w Ok show ?thesis by simp
  qed (use w write_returns [OF Cons.prems, of p] in auto)
qed simp

lemma through_ok: "at qs s \<Longrightarrow> write_through Write x s = (Ok u, s') \<Longrightarrow> at (qs @ fst x) s' \<and> snd x = None"
  using pieces_ok by (auto simp: write_through_def and_then_Ok_iff)

lemma through_returns:
  assumes "at qs s"
  shows "returns (fst (write_through Write x s))"
proof -
  obtain r s1 where w: "write_pieces Write (fst x) s = (r, s1)" by fastforce
  have "returns r" using pieces_returns [OF assms, of "fst x"] w by simp
  with w show ?thesis by (cases r) (auto simp: write_through_def lift_err_def split: option.splits)
qed

end

interpretation cnt_writer: piece_writer cnt_Write "\<lambda>qs. sender_at log0 (concat qs) N" for log0 N
  by unfold_locales (auto dest: cnt_Write_ok intro: cnt_Write_returns)

text \<open>The states of the encrypter and of the encoder after the pieces \<open>qs\<close> and the blocks \<open>ps\<close>.\<close>

definition enc_at ::
  "('k, 'e, 'z, 'x, 'y, 'g, 'f) clib \<Rightarrow> CopyStream list \<Rightarrow> nat \<Rightarrow> 'e option \<Rightarrow> 'z option \<Rightarrow> bytes list \<Rightarrow> ('e, 'z) chain \<Rightarrow> bool" where
  "enc_at C log0 N e0 z qs ch \<longleftrightarrow> ch_encoder ch = z \<and>
     (case e0 of
        None \<Rightarrow> ch_encrypter ch = None \<and> sender_at log0 (concat qs) N (ch_cnt ch)
      | Some e \<Rightarrow> \<exists>ws e1. run_writes (sio_Write C) e qs = (ws, True, e1) \<and> ch_encrypter ch = Some e1 \<and>
          sender_at log0 (concat ws) N (ch_cnt ch))"

definition chain_at ::
  "('k, 'e, 'z, 'x, 'y, 'g, 'f) clib \<Rightarrow> CopyStream list \<Rightarrow> nat \<Rightarrow> 'e option \<Rightarrow> 'z option \<Rightarrow> bytes list \<Rightarrow> ('e, 'z) chain \<Rightarrow> bool" where
  "chain_at C log0 N e0 z0 ps ch \<longleftrightarrow>
     (case z0 of
        None \<Rightarrow> enc_at C log0 N e0 None ps ch
      | Some z \<Rightarrow> \<exists>qs z1. run_writes (zstd_Write C) z ps = (qs, True, z1) \<and> enc_at C log0 N e0 (Some z1) qs ch)"

lemma enc_Write_ok:
  assumes "enc_at C log0 N e0 z qs ch" and "enc_Write C ch p = (Ok n, ch')"
  shows "enc_at C log0 N e0 z (qs @ [p]) ch'"
proof (cases e0)
  case None
  with assms show ?thesis
    by (auto simp: enc_at_def enc_Write_def split: prod.splits dest: cnt_Write_ok)
next
  case (Some e)
  then obtain ws e1 where e1: "run_writes (sio_Write C) e qs = (ws, True, e1)" "ch_encrypter ch = Some e1"
    "sender_at log0 (concat ws) N (ch_cnt ch)" "ch_encoder ch = z" using assms(1) by (auto simp: enc_at_def)
  obtain x e2 where x: "sio_Write C e1 p = (x, e2)" by fastforce
  obtain r c where c: "write_through cnt_Write x (ch_cnt ch) = (r, c)" by fastforce
  from assms(2) e1(2) x c have r: "r = Ok ()" and ch': "ch' = ch\<lparr>ch_cnt := c, ch_encrypter := Some e2\<rparr>"
    by (auto simp: enc_Write_def bind_result_Ok_iff)
  have "sender_at log0 (concat (ws @ fst x)) N c \<and> snd x = None"
    by (rule cnt_writer.through_ok [OF e1(3) c [unfolded r]])
  with e1 x ch' Some show ?thesis by (auto simp: enc_at_def run_writes_append)
qed

lemma enc_Write_returns:
  assumes "enc_at C log0 N e0 z qs ch"
  shows "returns (fst (enc_Write C ch p))"
proof (cases e0)
  case None
  with assms show ?thesis
    using cnt_writer.write_returns [of log0 qs N "ch_cnt ch" p] by (auto simp: enc_at_def enc_Write_def split: prod.splits)
next
  case (Some e)
  with assms obtain ws e1 where e1: "ch_encrypter ch = Some e1" "sender_at log0 (concat ws) N (ch_cnt ch)"
    by (auto simp: enc_at_def)
  obtain x e2 where x: "sio_Write C e1 p = (x, e2)" by fastforce
  obtain r c where c: "write_through cnt_Write x (ch_cnt ch) = (r, c)" by fastforce
  have "returns r" using cnt_writer.through_returns [OF e1(2), of x] c by simp
  with e1(1) x c show ?thesis by (auto simp: enc_Write_def intro!: returns_bind)
qed

interpretation enc_writer: piece_writer "enc_Write C" "enc_at C log0 N e0 z" for C log0 N e0 z
  by unfold_locales (auto dest: enc_Write_ok intro: enc_Write_returns)

lemma chain_Write_ok:
  assumes "chain_at C log0 N e0 z0 ps ch" and "chain_Write C ch p = (Ok n, ch')"
  shows "chain_at C log0 N e0 z0 (ps @ [p]) ch'"
proof (cases z0)
  case None
  then have e: "enc_at C log0 N e0 None ps ch" using assms(1) by (simp add: chain_at_def)
  then have "enc_Write C ch p = (Ok n, ch')" using assms(2) by (simp add: chain_Write_def enc_at_def)
  from enc_writer.write_ok [OF e this] None show ?thesis by (simp add: chain_at_def)
next
  case (Some z)
  then obtain qs z1 where z1: "run_writes (zstd_Write C) z ps = (qs, True, z1)" "enc_at C log0 N e0 (Some z1) qs ch"
    using assms(1) by (auto simp: chain_at_def)
  obtain x z2 where x: "zstd_Write C z1 p = (x, z2)" by fastforce
  obtain r ch1 where c: "write_through (enc_Write C) x ch = (r, ch1)" by fastforce
  have "ch_encoder ch = Some z1" using z1(2) by (simp add: enc_at_def)
  with assms(2) x c have r: "r = Ok ()" and ch': "ch' = ch1\<lparr>ch_encoder := Some z2\<rparr>"
    by (auto simp: chain_Write_def bind_result_Ok_iff)
  have "enc_at C log0 N e0 (Some z1) (qs @ fst x) ch1 \<and> snd x = None"
    by (rule enc_writer.through_ok [OF z1(2) c [unfolded r]])
  with z1(1) x ch' Some show ?thesis by (auto simp: chain_at_def enc_at_def run_writes_append split: option.splits)
qed

lemma chain_Write_returns:
  assumes "chain_at C log0 N e0 z0 ps ch"
  shows "returns (fst (chain_Write C ch p))"
proof (cases z0)
  case None
  then have "enc_at C log0 N e0 None ps ch" using assms by (simp add: chain_at_def)
  with enc_writer.write_returns [OF this, of p] show ?thesis by (simp add: chain_Write_def enc_at_def)
next
  case (Some z)
  with assms obtain qs z1 where z1: "enc_at C log0 N e0 (Some z1) qs ch" by (auto simp: chain_at_def)
  then have e: "ch_encoder ch = Some z1" by (simp add: enc_at_def)
  obtain x z2 where x: "zstd_Write C z1 p = (x, z2)" by fastforce
  obtain r ch1 where c: "write_through (enc_Write C) x ch = (r, ch1)" by fastforce
  have "returns r" using enc_writer.through_returns [OF z1, of x] c by simp
  with e x c show ?thesis by (auto simp: chain_Write_def intro!: returns_bind)
qed

text \<open>What the writers have put on the stream once they are closed.\<close>

definition encoded :: "('k, 'e, 'z, 'x, 'y, 'g, 'f) clib \<Rightarrow> 'z option \<Rightarrow> bytes list \<Rightarrow> bytes list" where
  "encoded C z0 ps = (case z0 of None \<Rightarrow> ps | Some z \<Rightarrow> emitted (zstd_Write C) (zstd_Close C) z ps)"

definition sealed :: "('k, 'e, 'z, 'x, 'y, 'g, 'f) clib \<Rightarrow> 'e option \<Rightarrow> bytes list \<Rightarrow> bytes" where
  "sealed C e0 qs = concat (case e0 of None \<Rightarrow> qs | Some e \<Rightarrow> emitted (sio_Write C) (sio_Close C) e qs)"

definition writers_ok :: "('k, 'e, 'z, 'x, 'y, 'g, 'f) clib \<Rightarrow> 'e option \<Rightarrow> 'z option \<Rightarrow> bytes list \<Rightarrow> bool" where
  "writers_ok C e0 z0 ps \<longleftrightarrow>
     (\<forall>z. z0 = Some z \<longrightarrow> emits_ok (zstd_Write C) (zstd_Close C) z ps) \<and>
     (\<forall>e. e0 = Some e \<longrightarrow> emits_ok (sio_Write C) (sio_Close C) e (encoded C z0 ps))"

lemma encoder_Close_ok:
  assumes "chain_at C log0 N e0 z0 ps ch" and "encoder_Close C ch = (Ok u, ch')"
  shows "\<exists>z. enc_at C log0 N e0 z (encoded C z0 ps) ch'" and "z0 = Some z \<Longrightarrow> emits_ok (zstd_Write C) (zstd_Close C) z ps"
proof -
  have "(\<exists>z. enc_at C log0 N e0 z (encoded C z0 ps) ch') \<and> (\<forall>z. z0 = Some z \<longrightarrow> emits_ok (zstd_Write C) (zstd_Close C) z ps)"
  proof (cases z0)
    case None
    with assms show ?thesis by (auto simp: chain_at_def encoder_Close_def encoded_def enc_at_def split: option.splits)
  next
    case (Some z)
    then obtain qs z1 where z1: "run_writes (zstd_Write C) z ps = (qs, True, z1)" "enc_at C log0 N e0 (Some z1) qs ch"
      using assms(1) by (auto simp: chain_at_def)
    then have "write_through (enc_Write C) (zstd_Close C z1) ch = (Ok u, ch')"
      using assms(2) by (simp add: encoder_Close_def enc_at_def)
    from enc_writer.through_ok [OF z1(2) this] z1(1) Some show ?thesis
      by (auto simp: encoded_def emitted_def emits_ok_def)
  qed
  then show "\<exists>z. enc_at C log0 N e0 z (encoded C z0 ps) ch'" "z0 = Some z \<Longrightarrow> emits_ok (zstd_Write C) (zstd_Close C) z ps" by auto
qed

lemma encrypter_Close_ok:
  assumes "enc_at C log0 N e0 z qs ch" and "encrypter_Close C ch = (Ok u, ch')"
  shows "sender_at log0 (sealed C e0 qs) N (ch_cnt ch') \<and> (\<forall>e. e0 = Some e \<longrightarrow> emits_ok (sio_Write C) (sio_Close C) e qs)"
proof (cases e0)
  case None
  with assms show ?thesis by (auto simp: enc_at_def encrypter_Close_def sealed_def)
next
  case (Some e)
  then obtain ws e1 where e1: "run_writes (sio_Write C) e qs = (ws, True, e1)" "ch_encrypter ch = Some e1"
    "sender_at log0 (concat ws) N (ch_cnt ch)" using assms(1) by (auto simp: enc_at_def)
  obtain r c where c: "write_through cnt_Write (sio_Close C e1) (ch_cnt ch) = (r, c)" by fastforce
  with assms(2) e1(2) have r: "r = Ok u" and ch': "ch' = ch\<lparr>ch_cnt := c\<rparr>" by (auto simp: encrypter_Close_def)
  from cnt_writer.through_ok [OF e1(3) c [unfolded r]] e1(1) ch' Some show ?thesis
    by (auto simp: sealed_def emitted_def emits_ok_def)
qed

lemma close_writers_ok:
  assumes "chain_at C log0 N e0 z0 ps ch" and "close_writers C (h, ch) = (Ok u, h', ch')"
  shows "h' = h" and "writers_ok C e0 z0 ps" and "sender_at log0 (sealed C e0 (encoded C z0 ps)) N (ch_cnt ch')"
proof -
  from assms(2) obtain v ch1 where c: "encoder_Close C ch = (Ok v, ch1)" "encrypter_Close C ch1 = (Ok u, ch')" and "h' = h"
    by (auto simp: close_writers_def and_then_Ok_iff split: prod.splits)
  then show "h' = h" by simp
  obtain z where "enc_at C log0 N e0 z (encoded C z0 ps) ch1" using encoder_Close_ok(1) [OF assms(1) c(1)] by blast
  from encrypter_Close_ok [OF this c(2)] encoder_Close_ok(2) [OF assms(1) c(1)]
  show "writers_ok C e0 z0 ps" "sender_at log0 (sealed C e0 (encoded C z0 ps)) N (ch_cnt ch')"
    by (auto simp: writers_ok_def)
qed

lemma close_writers_returns:
  assumes "chain_at C log0 N e0 z0 ps ch"
  shows "returns (fst (close_writers C (h, ch)))"
proof -
  obtain r ch1 where c: "encoder_Close C ch = (r, ch1)" by fastforce
  have "returns r"
  proof (cases z0)
    case None
    with assms c show ?thesis by (auto simp: chain_at_def enc_at_def encoder_Close_def)
  next
    case (Some z)
    then obtain qs z1 where z1: "enc_at C log0 N e0 (Some z1) qs ch" using assms by (auto simp: chain_at_def)
    with c enc_writer.through_returns [OF z1, of "zstd_Close C z1"] show ?thesis by (auto simp: encoder_Close_def enc_at_def)
  qed
  moreover have "returns (fst (encrypter_Close C ch1))" if ok: "r = Ok u" for u
  proof -
    obtain z where e: "enc_at C log0 N e0 z (encoded C z0 ps) ch1" using encoder_Close_ok(1) [OF assms, of u ch1] c ok by blast
    show ?thesis
    proof (cases "ch_encrypter ch1")
      case (Some e1)
      with e obtain ws where "sender_at log0 (concat ws) N (ch_cnt ch1)" by (auto simp: enc_at_def split: option.splits)
      from cnt_writer.through_returns [OF this, of "sio_Close C e1"] Some show ?thesis
        by (auto simp: encrypter_Close_def split: prod.splits)
    qed (simp add: encrypter_Close_def)
  qed
  ultimately show ?thesis using c by (cases r) (auto simp: close_writers_def split: prod.splits)
qed

subsection \<open>The loop of Copy\<close>

lemma put_block_step:
  assumes "chain_at C log0 N e0 z0 ps ch" and "put_block C p (h, ch) = (r, h', ch')"
  shows "returns r" and "r = Ok u \<Longrightarrow> chain_at C log0 N e0 z0 (ps @ [p]) ch' \<and> h' = map_option (\<lambda>d. d @ p) h"
proof -
  obtain r1 ch1 where w: "chain_Write C ch p = (r1, ch1)" by fastforce
  have "returns r1" using chain_Write_returns [OF assms(1), of p] w by simp
  with w assms(2) show "returns r" by (cases r1) (auto simp: put_block_def)
  show "r = Ok u \<Longrightarrow> chain_at C log0 N e0 z0 (ps @ [p]) ch' \<and> h' = map_option (\<lambda>d. d @ p) h"
    using w assms(2) chain_Write_ok [OF assms(1), of p _ ch1] by (cases r1) (auto simp: put_block_def)
qed

text \<open>The outcome of the loop on an input with \<open>D\<close> left.\<close>

definition loop_done ::
  "('k, 'e, 'z, 'x, 'y, 'g, 'f) clib \<Rightarrow> CopyStream list \<Rightarrow> nat \<Rightarrow> 'e option \<Rightarrow> 'z option \<Rightarrow> bytes list \<Rightarrow> nat \<Rightarrow> bytes option \<Rightarrow> bytes \<Rightarrow>
     nat result \<times> 'r \<times> ('e, 'z) copy_state \<Rightarrow> bool" where
  "loop_done C log0 N e0 z0 ps k h D x \<longleftrightarrow> (let (res, r, h', ch) = x in
     returns res \<and>
     (\<forall>n. res = Ok n \<longrightarrow> n = k + length D \<and> h' = map_option (\<lambda>d. d @ D) h \<and>
        writers_ok C e0 z0 (ps @ blocks N D) \<and> sender_at log0 (sealed C e0 (encoded C z0 (ps @ blocks N D))) N (ch_cnt ch)))"

lemma loop_done_Cons:
  assumes "loop_done C log0 N e0 z0 (ps @ [p]) (k + length p) (map_option (\<lambda>d. d @ p) h) D x"
    and "blocks N (p @ D) = p # blocks N D"
  shows "loop_done C log0 N e0 z0 ps k h (p @ D) x"
proof -
  obtain res r h' ch where x: "x = (res, r, h', ch)" by (rule prod_cases4)
  have "map_option (\<lambda>d. d @ D) (map_option (\<lambda>d. d @ p) h) = map_option (\<lambda>d. d @ p @ D) h" by (cases h) simp_all
  with assms show ?thesis by (cases res) (simp_all add: loop_done_def x add.assoc)
qed

lemma copy_loop_spec:
  assumes "feeding Read E r D" and "sticky Read E" and "0 < N" and "length buf = N" and "chain_at C log0 N e0 z0 ps ch"
  shows "\<exists>x. copy_loop C Read N k buf r (h, ch) = Some x \<and> loop_done C log0 N e0 z0 ps k h D x"
  using assms(1,4,5)
proof (induction "length D" arbitrary: D r buf ps k h ch rule: less_induct)
  case less
  obtain res buf1 r1 where rd: "ReadAtLeast Read r buf N = Some (res, buf1, r1)" and
    blk: "read_block Read E N D (res, buf1, r1)"
    using ReadAtLeast_spec [OF less.prems(1) assms(2,3) less.prems(2)] by (metis prod_cases3)
  consider "D = []" | "D \<noteq> []" "length D < N" | "N \<le> length D" by linarith
  then show ?case
  proof cases
    case 1
    with blk assms(3) have res: "res = Ok (0, Some EOF)" by (auto simp: read_block_def)
    obtain rc h' ch' where cl: "close_writers C (h, ch) = (rc, h', ch')" by (metis prod_cases3)
    have "returns rc" using close_writers_returns [OF less.prems(3), of h] cl by simp
    then have "loop_done C log0 N e0 z0 ps k h D (bind_result rc (\<lambda>_. Ok k), r1, h', ch')"
      using close_writers_ok [OF less.prems(3), of h _ h' ch'] cl 1
      by (cases rc; cases h) (auto simp: loop_done_def)
    moreover have "copy_loop C Read N k buf r (h, ch) = Some (bind_result rc (\<lambda>_. Ok k), r1, h', ch')"
      using rd res cl by (subst copy_loop.simps) (cases rc; auto)
    ultimately show ?thesis by blast
  next
    case 2
    with blk have res: "res = Ok (length D, Some ErrUnexpectedEOF)" and D: "take (length D) buf1 = D" "E r1" "length buf1 = N"
      by (auto simp: read_block_def)
    obtain rp h' ch' where pb: "put_block C D (h, ch) = (rp, h', ch')" by (metis prod_cases3)
    note step = put_block_step [OF less.prems(3) pb]
    show ?thesis
    proof (cases rp)
      case (Ok u)
      have "feeding Read E r1 []" using D(2) by (simp add: feeding_def)
      with less.hyps [of "[]" r1 buf1 "ps @ [D]" ch' "k + length D" h'] D(3) step(2) [OF Ok] 2
      obtain x where x: "copy_loop C Read N (k + length D) buf1 r1 (h', ch') = Some x"
        "loop_done C log0 N e0 z0 (ps @ [D]) (k + length D) h' [] x" by auto
      have "loop_done C log0 N e0 z0 ps k h (D @ []) x"
        by (rule loop_done_Cons) (use x(2) step(2) [OF Ok] 2 blocks_short [of D N] in auto)
      moreover have "copy_loop C Read N k buf r (h, ch) = Some x"
        using rd res pb Ok D(1) x(1) by (subst copy_loop.simps) simp
      ultimately show ?thesis by simp
    qed (use rd res pb D(1) step(1) in \<open>subst copy_loop.simps, simp add: loop_done_def\<close>)+
  next
    case 3
    let ?p = "take N D"
    from 3 blk have res: "res = Ok (N, None)" and D: "take N buf1 = ?p" "feeding Read E r1 (drop N D)" "length buf1 = N"
      by (auto simp: read_block_def)
    obtain rp h' ch' where pb: "put_block C ?p (h, ch) = (rp, h', ch')" by (metis prod_cases3)
    note step = put_block_step [OF less.prems(3) pb]
    show ?thesis
    proof (cases rp)
      case (Ok u)
      have "length (drop N D) < length D" using 3 assms(3) by simp
      from less.hyps [OF this D(2,3), of "ps @ [?p]" ch' "k + N" h'] step(2) [OF Ok]
      obtain x where x: "copy_loop C Read N (k + N) buf1 r1 (h', ch') = Some x"
        "loop_done C log0 N e0 z0 (ps @ [?p]) (k + N) h' (drop N D) x" by auto
      have "loop_done C log0 N e0 z0 ps k h (?p @ drop N D) x"
        by (rule loop_done_Cons) (use x(2) step(2) [OF Ok] 3 blocks_step [OF assms(3) 3] in \<open>auto simp: min_absorb2\<close>)
      moreover have "copy_loop C Read N k buf r (h, ch) = Some x"
        using rd res pb Ok D(1) x(1) by (subst copy_loop.simps) simp
      ultimately show ?thesis by auto
    qed (use rd res pb D(1) step(1) in \<open>subst copy_loop.simps, simp add: loop_done_def\<close>)+
  qed
qed

subsection \<open>The whole of Copy\<close>

lemma copy_config_positive: "0 < sint (cfg_ChunkSize (copy_config opts)) \<and> 0 < sint (cfg_Ttl (copy_config opts))"
proof -
  have "0 < sint (cfg_ChunkSize (fold copy_Apply opts c)) \<and> 0 < sint (cfg_Ttl (fold copy_Apply opts c))"
    if "0 < sint (cfg_ChunkSize c)" "0 < sint (cfg_Ttl c)" for c
    using that
  proof (induction opts arbitrary: c)
    case (Cons x opts)
    have "0 < sint (cfg_ChunkSize (copy_Apply x c)) \<and> 0 < sint (cfg_Ttl (copy_Apply x c))" using Cons.prems by (cases x) auto
    with Cons.IH show ?case by simp
  qed simp
  moreover have "0 < sint (cfg_ChunkSize copy_DefaultConfig)" "0 < sint (cfg_Ttl copy_DefaultConfig)" by code_simp+
  ultimately show ?thesis by (simp add: copy_config_def)
qed

definition copy_chunkSize :: "copy_option list \<Rightarrow> nat" where
  "copy_chunkSize opts = nat (sint (cfg_ChunkSize (copy_config opts)))"

lemma copy_chunkSize_positive [simp]: "0 < copy_chunkSize opts"
  using copy_config_positive [of opts] by (simp add: copy_chunkSize_def)

definition nonce_of :: "'e sealing option \<Rightarrow> ('e sealing \<Rightarrow> bytes) \<Rightarrow> bytes" where
  "nonce_of s f = (case s of None \<Rightarrow> [] | Some x \<Rightarrow> f x)"

text \<open>The info header of a copy.\<close>

definition header_of :: "copy_Config \<Rightarrow> 'e sealing option \<Rightarrow> CopyStream" where
  "header_of config s = copy_info (cfg_Ttl config) (cfg_Compression config)
     (nonce_of s se_masterKeyNonce) (nonce_of s se_keyNonce) (nonce_of s se_iv)"

lemma sendInfo_start:
  assumes "chain_sendInfo \<lparr>ch_cnt = BytesWriteCounter (NewWriter (new_client_sender stream) (replicate N 0)),
      ch_encrypter = e0, ch_encoder = z0\<rparr> ttl cmp mk k iv = (Ok u, ch)" and "0 < N"
  shows "chain_at C (out_sent stream @ [copy_info ttl cmp mk k iv]) N e0 z0 [] ch"
proof -
  obtain e c where s: "sendInfo stream ttl cmp mk k iv = (e, c)" by fastforce
  with assms(1) have e: "e = None" and ch: "ch = \<lparr>ch_cnt = BytesWriteCounter (NewWriter \<lparr>cl_c = c, cl_bytesSent = 0\<rparr> (replicate N 0)),
      ch_encrypter = e0, ch_encoder = z0\<rparr>"
    by (auto simp: chain_sendInfo_def BytesWriteCounter_def NewWriter_def new_client_sender_def)
  have "out_sent c = out_sent stream @ [copy_info ttl cmp mk k iv]"
    using s e stream_Send_ok by (auto simp: sendInfo_def)
  then have "sender_at (out_sent stream @ [copy_info ttl cmp mk k iv]) [] N (ch_cnt ch)"
    using NewWriter_inv [of "replicate N 0" "\<lparr>cl_c = c, cl_bytesSent = 0\<rparr>"] assms(2)
    by (simp add: sender_at_def ch BytesWriteCounter_def) (simp add: NewWriter_def)
  then show ?thesis by (auto simp: chain_at_def enc_at_def ch split: option.splits)
qed

lemma chain_Flush_ok:
  assumes "sender_at log0 W N (ch_cnt ch)" and "chain_Flush ch checksum = (Ok u, ch')"
  shows "out_sent (chain_outbox ch') = log0 @ map copy_chunk (cut N W) @ (if checksum = [] then [] else [copy_checksum checksum])"
    and "Sent (ch_cnt ch') = length W"
proof -
  obtain gw where f: "Writer_Flush client_SendChunk client_SendChecksum (cn_x (ch_cnt ch)) checksum = (Ok (), gw)"
    and ch': "ch' = ch\<lparr>ch_cnt := (ch_cnt ch)\<lparr>cn_x := gw\<rparr>\<rparr>"
    using assms(2) by (auto simp: chain_Flush_def Let_def split: prod.splits)
  obtain cs where cs: "out_sent (cl_c (w_s (cn_x (ch_cnt ch)))) = log0 @ map copy_chunk cs" "\<forall>c \<in> set cs. length c = N"
    "concat cs @ buffered (cn_x (ch_cnt ch)) = W" and inv: "writer_inv (cn_x (ch_cnt ch))" "length (w_t (cn_x (ch_cnt ch))) = N"
    "cn_sent (ch_cnt ch) = length W" using assms(1) by (auto simp: sender_at_def)
  have "length (buffered (cn_x (ch_cnt ch))) < N" using buffered_short [OF inv(1)] inv(2) by simp
  from cut_unique [OF cs(2) this] cs(3) have cut: "cut N W = cs @ [buffered (cn_x (ch_cnt ch))]" by simp
  from client_send.Flush_ok [OF inv(1) f] cs(1) show
    "out_sent (chain_outbox ch') = log0 @ map copy_chunk (cut N W) @ (if checksum = [] then [] else [copy_checksum checksum])"
    by (simp add: chain_outbox_def ch' cut)
  show "Sent (ch_cnt ch') = length W" using inv(3) by (simp add: Sent_def ch')
qed

definition checksum_of :: "('k, 'e, 'z, 'x, 'y, 'g, 'f) clib \<Rightarrow> copy_Config \<Rightarrow> bytes \<Rightarrow> bytes" where
  "checksum_of C config D = (if cfg_Checksum config then sha256_Sum C D else [])"

text \<open>What goes over the wire for the input \<open>D\<close>.\<close>

definition copy_payload :: "('k, 'e, 'z, 'x, 'y, 'g, 'f) clib \<Rightarrow> nat \<Rightarrow> 'e sealing option \<Rightarrow> 'z option \<Rightarrow> bytes \<Rightarrow> bytes" where
  "copy_payload C N s z D = sealed C (map_option se_encrypter s) (encoded C z (blocks N D))"

definition copy_messages ::
  "('k, 'e, 'z, 'x, 'y, 'g, 'f) clib \<Rightarrow> copy_Config \<Rightarrow> 'e sealing option \<Rightarrow> 'z option \<Rightarrow> bytes \<Rightarrow> CopyStream list" where
  "copy_messages C config s z D =
     (let N = nat (sint (cfg_ChunkSize config)); checksum = checksum_of C config D
      in header_of config s # map copy_chunk (cut N (copy_payload C N s z D)) @ (if checksum = [] then [] else [copy_checksum checksum]))"

definition copy_summary :: "('k, 'e, 'z, 'x, 'y, 'g, 'f) clib \<Rightarrow> copy_Config \<Rightarrow> 64 word \<Rightarrow> bytes \<Rightarrow> bytes \<Rightarrow> 'f Summary" where
  "copy_summary C config d D W =
     \<lparr>sm_BytesRead = length D, sm_ByteWrite = length W, sm_CopyDuration = d, sm_Checksum = checksum_of C config D,
      sm_Encrypted = cfg_Encryption config, sm_Compressed = cfg_Compression config, sm_TransferRate = speed C (length W) d\<rparr>"

lemma copy_send_spec:
  assumes "feeding Read E r D" and "sticky Read E" and "0 < sint (cfg_ChunkSize config)"
    and "N = nat (sint (cfg_ChunkSize config))"
    and "ch0 = \<lparr>ch_cnt = BytesWriteCounter (NewWriter (new_client_sender stream) (replicate N 0)), ch_encrypter = None, ch_encoder = None\<rparr>"
    and "h0 = (if cfg_Checksum config then Some [] else None)"
    and "copy_send C CloseAndRecv Read r config d s z (h0, ch0) = (res, h, ch)"
  shows "returns res"
    and "res = Ok sm \<Longrightarrow> out_sent (chain_outbox ch) = out_sent stream @ copy_messages C config s z D \<and>
      CloseAndRecv (out_sent (chain_outbox ch)) = None \<and>
      writers_ok C (map_option se_encrypter s) z (blocks N D) \<and> sm = copy_summary C config d D (copy_payload C N s z D)"
proof -
  have N: "0 < N" using assms(3,4) by simp
  let ?e = "map_option se_encrypter s" and ?log = "out_sent stream @ [header_of config s]"
  let ?ch1 = "ch0\<lparr>ch_encrypter := ?e, ch_encoder := z\<rparr>" and ?W = "copy_payload C N s z D"
  obtain r1 ch2 where si: "chain_sendInfo ?ch1 (cfg_Ttl config) (cfg_Compression config) (nonce_of s se_masterKeyNonce)
      (nonce_of s se_keyNonce) (nonce_of s se_iv) = (r1, ch2)" by fastforce
  note send = assms(7) [unfolded copy_send_def Let_def prod.case nonce_of_def [symmetric] si [unfolded Let_def] assms(4) [symmetric]]
  have "returns r1" using si by (auto simp: chain_sendInfo_def Let_def lift_err_def split: prod.splits option.splits)
  have "returns res \<and> (res = Ok sm \<longrightarrow> out_sent (chain_outbox ch) = out_sent stream @ copy_messages C config s z D \<and>
      CloseAndRecv (out_sent (chain_outbox ch)) = None \<and> writers_ok C ?e z (blocks N D) \<and> sm = copy_summary C config d D ?W)"
  proof (cases r1)
    case (Ok u)
    have at: "chain_at C ?log N ?e z [] ch2"
      using sendInfo_start [OF _ N] si Ok assms(5) by (simp add: header_of_def)
    obtain res2 r2 h2 ch3 where loop: "copy_loop C Read N 0 (replicate N 0) r (h0, ch2) = Some (res2, r2, h2, ch3)"
      and ld: "loop_done C ?log N ?e z [] 0 h0 D (res2, r2, h2, ch3)"
      using copy_loop_spec [OF assms(1,2) N _ at, of "replicate N 0" 0 h0] by (metis length_replicate prod_cases4)
    have run: "(res, h, ch) = and_then (res2, h2, ch3) (copy_finish C CloseAndRecv config d)"
      using send Ok loop by (simp add: )
    show ?thesis
    proof (cases res2)
      case (Ok n)
      from ld Ok have n: "n = length D" "h2 = map_option (\<lambda>d. d @ D) h0" "writers_ok C ?e z (blocks N D)"
        "sender_at ?log ?W N (ch_cnt ch3)" by (auto simp: loop_done_def copy_payload_def)
      have cs: "(case h2 of None \<Rightarrow> [] | Some dat \<Rightarrow> sha256_Sum C dat) = checksum_of C config D"
        using n(2) assms(6) by (simp add: checksum_of_def)
      obtain r3 ch4 where f: "chain_Flush ch3 (checksum_of C config D) = (r3, ch4)" by fastforce
      have "returns r3"
        using f client_send.Flush_returns [of "cn_x (ch_cnt ch3)" "checksum_of C config D"]
        by (auto simp: chain_Flush_def Let_def split: prod.splits)
      have fin: "(res, h, ch) = and_then (r3, h2, ch4) (\<lambda>_ (h, ch).
           case CloseAndRecv (out_sent (chain_outbox ch)) of
             Some e \<Rightarrow> (Err e, h, ch)
           | None \<Rightarrow>
               (Ok \<lparr>sm_BytesRead = n, sm_ByteWrite = Sent (ch_cnt ch), sm_CopyDuration = d, sm_Checksum = checksum_of C config D,
                    sm_Encrypted = cfg_Encryption config, sm_Compressed = cfg_Compression config,
                    sm_TransferRate = speed C (Sent (ch_cnt ch)) d\<rparr>, h, ch))"
        using run Ok f by (simp add: copy_finish_def cs)
      show ?thesis
      proof (cases r3)
        case (Ok v)
        note fl = chain_Flush_ok [OF n(4) f [unfolded Ok]]
        have "out_sent (chain_outbox ch4) = out_sent stream @ copy_messages C config s z D"
          using fl(1) assms(4) by (simp add: copy_messages_def Let_def)
        with fin Ok fl(2) n(1,3) show ?thesis by (auto simp: copy_summary_def split: option.splits)
      qed (use fin \<open>returns r3\<close> in auto)
    qed (use run ld in \<open>auto simp: loop_done_def\<close>)
  qed (use send \<open>returns r1\<close> in auto)
  then show "returns res" "res = Ok sm \<Longrightarrow> out_sent (chain_outbox ch) = out_sent stream @ copy_messages C config s z D \<and>
      CloseAndRecv (out_sent (chain_outbox ch)) = None \<and> writers_ok C ?e z (blocks N D) \<and> sm = copy_summary C config d D ?W" by auto
qed

lemma lift_sum_returns [simp]: "returns (lift_sum x)"
  by (cases x) simp_all

lemma new_sealing_returns: "returns (new_sealing C g secret)"
  by (auto simp: new_sealing_def DerivePassword_def DeriveMasterKey_def Let_def split: prod.splits intro!: returns_bind)

lemma new_sealing_ok:
  assumes "clib_laws C" and "new_sealing C g (Inr pwd) = Ok s"
  shows "length (se_masterKeyNonce s) = NonceSize" and "length (se_keyNonce s) = NonceSize"
    and "\<exists>k. derive_key C pwd (se_masterKeyNonce s) (se_keyNonce s) = Ok k \<and> length (se_iv s) = sio_NonceSize C k \<and>
      se_encrypter s = sio_EncryptWriter C k (se_iv s)"
  using assms(2) clib_laws_sizes(1) [OF assms(1), of g NonceSize] clib_laws_sizes(1) [OF assms(1), of "snd (rand_Read C g NonceSize)" NonceSize]
    clib_laws_sizes(1) [OF assms(1)]
  by (auto simp: new_sealing_def derive_key_def Let_def bind_result_Ok_iff case_prod_beta)

definition sealing_of :: "('k, 'e, 'z, 'x, 'y, 'g, 'f) clib \<Rightarrow> copy_Config \<Rightarrow> 'g \<Rightarrow> secret \<Rightarrow> 'e sealing option \<Rightarrow> bool" where
  "sealing_of C config g secret s \<longleftrightarrow>
     (if cfg_Encryption config then \<exists>x. new_sealing C g secret = Ok x \<and> s = Some x else s = None)"

definition encoder_of :: "('k, 'e, 'z, 'x, 'y, 'g, 'f) clib \<Rightarrow> copy_Config \<Rightarrow> 'z option \<Rightarrow> bool" where
  "encoder_of C config z \<longleftrightarrow> (if cfg_Compression config then \<exists>x. zstd_NewWriter C = Inr x \<and> z = Some x else z = None)"

lemma Client_Copy_spec:
  assumes "feeding Read E r D" and "sticky Read E"
    and "Client_Copy C (Inr stream) CloseAndRecv Read r secret g d opts = (res, msgs)"
  shows "returns res"
    and "res = Ok sm \<Longrightarrow> \<exists>s z. sealing_of C (copy_config opts) g secret s \<and> encoder_of C (copy_config opts) z \<and>
      writers_ok C (map_option se_encrypter s) z (blocks (copy_chunkSize opts) D) \<and>
      msgs = out_sent stream @ copy_messages C (copy_config opts) s z D \<and> CloseAndRecv msgs = None \<and>
      sm = copy_summary C (copy_config opts) d D (copy_payload C (copy_chunkSize opts) s z D)"
proof -
  let ?config = "copy_config opts" and ?N = "copy_chunkSize opts"
  let ?ch = "\<lparr>ch_cnt = BytesWriteCounter (NewWriter (new_client_sender stream) (replicate ?N 0)), ch_encrypter = None, ch_encoder = None\<rparr>"
  let ?h = "if cfg_Checksum ?config then Some [] else None"
  let ?s = "if cfg_Encryption ?config then bind_result (new_sealing C g secret) (\<lambda>s. Ok (Some s)) else Ok None"
  have pos: "0 < sint (cfg_ChunkSize ?config)" using copy_config_positive by blast
  obtain res1 h ch where run: "and_then (?s, ?h, ?ch) (\<lambda>s st. and_then (new_encoder C ?config, st) (\<lambda>z st.
      copy_send C CloseAndRecv Read r ?config d s z st)) = (res1, h, ch)" by (metis prod_cases3)
  with assms(3) pos have out: "res = res1" "msgs = out_sent (chain_outbox ch)"
    by (auto simp: Client_Copy_def Let_def copy_chunkSize_def)
  have "returns ?s" using new_sealing_returns [of C g secret] by (auto intro!: returns_bind)
  have "returns (new_encoder C ?config)" by (auto simp: new_encoder_def intro!: returns_bind)
  have "returns res1 \<and> (res1 = Ok sm \<longrightarrow> (\<exists>s z. sealing_of C ?config g secret s \<and> encoder_of C ?config z \<and>
      writers_ok C (map_option se_encrypter s) z (blocks ?N D) \<and>
      msgs = out_sent stream @ copy_messages C ?config s z D \<and> CloseAndRecv msgs = None \<and>
      sm = copy_summary C ?config d D (copy_payload C ?N s z D)))"
  proof (cases ?s)
    case (Ok s)
    then have so: "sealing_of C ?config g secret s"
      by (auto simp: sealing_of_def bind_result_Ok_iff split: if_splits)
    show ?thesis
    proof (cases "new_encoder C ?config")
      case enc: (Ok z)
      then have eo: "encoder_of C ?config z" by (auto simp: encoder_of_def new_encoder_def bind_result_Ok_iff split: if_splits)
      have "copy_send C CloseAndRecv Read r ?config d s z (?h, ?ch) = (res1, h, ch)" using run Ok enc by simp
      note sent = copy_send_spec [OF assms(1,2) pos copy_chunkSize_def refl refl this]
      from sent(1) sent(2) [of sm] so eo show ?thesis unfolding out by blast
    qed (use run Ok \<open>returns (new_encoder C ?config)\<close> in auto)
  qed (use run \<open>returns ?s\<close> in \<open>auto split: if_splits\<close>)
  then show "returns res" "res = Ok sm \<Longrightarrow> \<exists>s z. sealing_of C ?config g secret s \<and> encoder_of C ?config z \<and>
      writers_ok C (map_option se_encrypter s) z (blocks ?N D) \<and>
      msgs = out_sent stream @ copy_messages C ?config s z D \<and> CloseAndRecv msgs = None \<and>
      sm = copy_summary C ?config d D (copy_payload C ?N s z D)" using out by auto
qed

end
