(* ===== verification/Client_Paste.thy ===== *)
theory Client_Paste
  imports Client_Copy
begin

text \<open>
  The receiving side of the client: \<open>Client_Paste\<close> undoes the writers of \<open>Client_Copy\<close>, writes the data to its output, and reports an
  error when the stream breaks, the ciphertext is not authentic or the checksum does not match.
\<close>

subsection \<open>Reading from the stream\<close>

lemma gr_delivers:
  assumes "reader_inv gr" and "pr_fin (r_r gr) = EOF"
  shows "delivers gr_Read (\<lambda>gr'. Reader_Checksum client_Checksum gr' = pr_sum (r_r gr)) EOF gr (paste_recv.rest gr)"
  using assms
proof (induction "length (paste_recv.rest gr)" arbitrary: gr rule: less_induct)
  case less
  show ?case
  proof (rule deliversI)
    fix p :: bytes
    assume p: "0 < length p"
    let ?D = "paste_recv.rest gr"
    let ?goal = "\<exists>n err q r'. gr_Read gr p = (Ok (n, err), q, r') \<and> length q = length p \<and> n \<le> length p \<and> n \<le> length ?D \<and>
      take n q = take n ?D \<and>
      (err = None \<and> delivers gr_Read (\<lambda>gr'. Reader_Checksum client_Checksum gr' = pr_sum (r_r gr)) EOF r' (drop n ?D) \<or>
       err = Some EOF \<and> n = length ?D \<and> Reader_Checksum client_Checksum r' = pr_sum (r_r gr))"
    show ?goal
    proof (cases "length p \<le> length ?D")
      case True
      from paste_recv.reader.Read_full [OF less.prems(1) p True] obtain r' where
        r': "gr_Read gr p = (Ok (length p, None), take (length p) ?D, r')" "reader_inv r'" "paste_recv.rest r' = drop (length p) ?D"
          "pr_fin (r_r r') = pr_fin (r_r gr)" "pr_sum (r_r r') = pr_sum (r_r gr)" unfolding gr_Read_def by blast
      have "length (paste_recv.rest r') < length ?D" using p True unfolding r'(3) length_drop by linarith
      from less.hyps [OF this] r' True less.prems(2) show ?thesis by simp
    next
      case False
      from paste_recv.reader.Read_eof [OF less.prems(1) _ less.prems(2), of p] False obtain r' where
        "gr_Read gr p = (Ok (length ?D, Some EOF), ?D @ drop (length ?D) p, r')"
        "Reader_Checksum client_Checksum r' = pr_sum (r_r gr)" unfolding gr_Read_def by auto
      with False show ?thesis by simp
    qed
  qed
qed

lemma gr_fails:
  assumes "reader_inv gr" and "\<not> errors_is (pr_fin (r_r gr)) EOF"
  shows "fails gr_Read gr"
  using assms
proof (induction "length (paste_recv.rest gr)" arbitrary: gr rule: less_induct)
  case less
  show ?case
  proof (rule failsI)
    fix p :: bytes
    assume p: "0 < length p"
    let ?D = "paste_recv.rest gr"
    show "\<exists>n err q r'. gr_Read gr p = (Ok (n, err), q, r') \<and> length q = length p \<and> n \<le> length p \<and>
      (err = None \<and> fails gr_Read r' \<or> (\<exists>x. err = Some x \<and> \<not> errors_is x EOF))"
    proof (cases "length p \<le> length ?D")
      case True
      from paste_recv.reader.Read_full [OF less.prems(1) p True] obtain r' where
        r': "gr_Read gr p = (Ok (length p, None), take (length p) ?D, r')" "reader_inv r'" "paste_recv.rest r' = drop (length p) ?D"
          "pr_fin (r_r r') = pr_fin (r_r gr)" unfolding gr_Read_def by blast
      have "length (paste_recv.rest r') < length ?D" using p True unfolding r'(3) length_drop by linarith
      from less.hyps [OF this] r' True less.prems(2) show ?thesis by simp
    next
      case False
      have "pr_fin (r_r gr) \<noteq> EOF" using less.prems(2) by auto
      moreover have "paste_recv.read_result p ?D gr (gr_Read gr p)"
        unfolding gr_Read_def by (rule paste_recv.Read_spec [OF less.prems(1) p])
      ultimately show ?thesis
        using False less.prems(2) by (cases "gr_Read gr p") (auto simp: paste_recv.read_result_def)
    qed
  qed
qed

lemma source_delivers:
  assumes "clib_laws C" and "delivers gr_Read Q EOF gr (sealed C e0 qs)"
    and "\<And>e. e0 = Some e \<Longrightarrow> emits_ok (sio_Write C) (sio_Close C) e qs"
    and "case e0 of None \<Rightarrow> x = None
      | Some e \<Rightarrow> \<exists>k iv x'. e = sio_EncryptWriter C k iv \<and> sio_DecryptReader C k iv = Ok x' \<and> x = Some x'"
  shows "delivers (source_Read C) (\<lambda>src. Q (fst src)) EOF (gr, x) (concat qs)"
proof (cases e0)
  case None
  have "delivers (source_Read C) (\<lambda>src. Q (fst src)) EOF (gr, None) (sealed C e0 qs)"
    by (rule delivers_sim [OF assms(2), where f = "\<lambda>gr. (gr, None)"]) (simp_all add: source_Read_def)
  with None assms(4) show ?thesis by (simp add: sealed_def)
next
  case (Some e)
  with assms(4) obtain k iv x' where k: "e = sio_EncryptWriter C k iv" "sio_DecryptReader C k iv = Ok x'" "x = Some x'" by auto
  have "delivers (sio_Read C gr_Read) (\<lambda>s. Q (snd s)) EOF (x', gr) (concat qs)"
    using clib_laws_cipher(2) [OF assms(1) k(2)] assms(2,3) Some k(1) by (simp add: sealed_def)
  from delivers_sim [OF this, where f = "\<lambda>s. (snd s, Some (fst s))" and Read' = "source_Read C" and Q' = "\<lambda>src. Q (fst src)"]
  show ?thesis using k(3) by (simp add: source_Read_def split_beta)
qed

lemma input_delivers:
  assumes "clib_laws C" and "writers_ok C e0 z0 ps" and "delivers gr_Read Q EOF gr (sealed C e0 (encoded C z0 ps))"
    and "case e0 of None \<Rightarrow> x = None
      | Some e \<Rightarrow> \<exists>k iv x'. e = sio_EncryptWriter C k iv \<and> sio_DecryptReader C k iv = Ok x' \<and> x = Some x'"
    and "case z0 of None \<Rightarrow> y = None
      | Some z \<Rightarrow> zstd_NewWriter C = Inr z \<and> (\<exists>y'. zstd_NewReader C = Inr y' \<and> y = Some y')"
  shows "delivers (input_Read C) (\<lambda>inp. Q (fst (fst inp))) EOF ((gr, x), y) (concat ps)"
proof -
  have src: "delivers (source_Read C) (\<lambda>src. Q (fst src)) EOF (gr, x) (concat (encoded C z0 ps))"
    by (rule source_delivers [OF assms(1,3) _ assms(4)]) (use assms(2) in \<open>auto simp: writers_ok_def\<close>)
  show ?thesis
  proof (cases z0)
    case None
    have "delivers (input_Read C) (\<lambda>inp. Q (fst (fst inp))) EOF ((gr, x), None) (concat (encoded C z0 ps))"
      by (rule delivers_sim [OF src, where f = "\<lambda>src. (src, None)"]) (simp_all add: input_Read_def)
    with None assms(5) show ?thesis by (simp add: encoded_def)
  next
    case (Some z)
    with assms(5) obtain y' where y: "zstd_NewWriter C = Inr z" "zstd_NewReader C = Inr y'" "y = Some y'" by auto
    have "delivers (zstd_Read C (source_Read C)) (\<lambda>s. Q (fst (snd s))) EOF (y', gr, x) (concat ps)"
      using clib_laws_zstd(2) [OF assms(1) y(1,2) _, of ps "\<lambda>src. Q (fst src)" "(gr, x)"] src assms(2) Some
      by (simp add: encoded_def writers_ok_def)
    from delivers_sim [OF this, where f = "\<lambda>s. (snd s, Some (fst s))" and Read' = "input_Read C" and Q' = "\<lambda>inp. Q (fst (fst inp))"]
    show ?thesis using y(3) by (simp add: input_Read_def split_beta)
  qed
qed

lemma source_fails:
  assumes "clib_laws C" and "fails gr_Read gr" and "x = None \<or> (\<exists>k iv x'. sio_DecryptReader C k iv = Ok x' \<and> x = Some x')"
  shows "fails (source_Read C) (gr, x)"
  using assms(3)
proof
  assume "x = None"
  with fails_sim [OF assms(2), where f = "\<lambda>gr. (gr, None)" and Read' = "source_Read C"] show ?thesis
    by (simp add: source_Read_def)
next
  assume "\<exists>k iv x'. sio_DecryptReader C k iv = Ok x' \<and> x = Some x'"
  then obtain x' where x: "fails (sio_Read C gr_Read) (x', gr)" "x = Some x'"
    using clib_laws_cipher(3) [OF assms(1) _ assms(2)] by blast
  with fails_sim [OF x(1), where f = "\<lambda>s. (snd s, Some (fst s))" and Read' = "source_Read C"] show ?thesis
    by (simp add: source_Read_def split_beta)
qed

lemma input_fails:
  assumes "clib_laws C" and "fails (source_Read C) src" and "y = None \<or> (\<exists>y'. zstd_NewReader C = Inr y' \<and> y = Some y')"
  shows "fails (input_Read C) (src, y)"
  using assms(3)
proof
  assume "y = None"
  with fails_sim [OF assms(2), where f = "\<lambda>src. (src, None)" and Read' = "input_Read C"] show ?thesis
    by (simp add: input_Read_def)
next
  assume "\<exists>y'. zstd_NewReader C = Inr y' \<and> y = Some y'"
  then obtain y' where y: "fails (zstd_Read C (source_Read C)) (y', src)" "y = Some y'"
    using clib_laws_zstd(3) [OF assms(1) _ assms(2)] by blast
  with fails_sim [OF y(1), where f = "\<lambda>s. (snd s, Some (fst s))" and Read' = "input_Read C"] show ?thesis
    by (simp add: input_Read_def split_beta)
qed

subsection \<open>The loop of Paste\<close>

lemma sink_Write_reliable:
  "sink_reliable w \<Longrightarrow> sink_Write w p = (r, w') \<Longrightarrow> r = Ok () \<and> sink_reliable w' \<and> sk_data w' = sk_data w @ p"
  by (auto simp: sink_reliable_def split: list.splits option.splits)

lemma take_block_reliable:
  assumes "sink_reliable w"
  shows "\<exists>w'. take_block checksum p (h, w) = (Ok (), if checksum then h @ p else h, w') \<and> sink_reliable w' \<and>
    sk_data w' = sk_data w @ p"
proof -
  obtain r w' where "sink_Write w p = (r, w')" by fastforce
  with sink_Write_reliable [OF assms this] show ?thesis by (simp add: take_block_def del: sink_Write.simps)
qed

lemma paste_loop_delivers:
  assumes "delivers Read Q EOF r D" and "0 < length buf" and "sink_reliable w"
  shows "\<exists>r' w'. paste_loop Read checksum buf r (h, w) = Some (Ok (), r', if checksum then h @ D else h, w') \<and> Q r' \<and>
    sk_data w' = sk_data w @ D"
  using assms
proof (induction arbitrary: buf h w rule: delivers.induct)
  case (deliversI r D)
  from deliversI.IH [OF deliversI.prems(1)] obtain n err q r' where
    rd: "Read r buf = (Ok (n, err), q, r')" "length q = length buf" "n \<le> length D" "take n q = take n D" and
    nx: "err = None \<and> (\<forall>buf h w. 0 < length buf \<longrightarrow> sink_reliable w \<longrightarrow> (\<exists>r'' w'. paste_loop Read checksum buf r' (h, w) =
          Some (Ok (), r'', if checksum then h @ drop n D else h, w') \<and> Q r'' \<and> sk_data w' = sk_data w @ drop n D)) \<or>
        err = Some EOF \<and> n = length D \<and> Q r'" by auto
  obtain w1 where tb: "take_block checksum (take n D) (h, w) = (Ok (), if checksum then h @ take n D else h, w1)"
    "sink_reliable w1" "sk_data w1 = sk_data w @ take n D" using take_block_reliable [OF deliversI.prems(2)] by blast
  from nx show ?case
  proof
    assume e: "err = None \<and> (\<forall>buf h w. 0 < length buf \<longrightarrow> sink_reliable w \<longrightarrow> (\<exists>r'' w'. paste_loop Read checksum buf r' (h, w) =
          Some (Ok (), r'', if checksum then h @ drop n D else h, w') \<and> Q r'' \<and> sk_data w' = sk_data w @ drop n D))"
    have "0 < length q" using rd(2) deliversI.prems(1) by simp
    with e tb(2) obtain r'' w' where "paste_loop Read checksum q r' (if checksum then h @ take n D else h, w1) =
        Some (Ok (), r'', if checksum then (if checksum then h @ take n D else h) @ drop n D else (if checksum then h @ take n D else h), w')"
      "Q r''" "sk_data w' = sk_data w1 @ drop n D" by blast
    with rd tb e show ?case by (subst paste_loop.simps) simp
  next
    assume e: "err = Some EOF \<and> n = length D \<and> Q r'"
    show ?case
    proof (cases "n = 0")
      case True
      with e rd show ?thesis by (subst paste_loop.simps) simp
    next
      case False
      with e rd tb show ?thesis by (subst paste_loop.simps) simp
    qed
  qed
qed

lemma take_block_cases: "\<exists>r st'. take_block checksum p st = (r, st') \<and> (r = Ok () \<or> (\<exists>e. r = Err e))"
  by (auto simp: take_block_def split: prod.splits list.splits option.splits)

lemma paste_loop_fails:
  assumes "fails Read r" and "0 < length buf"
  shows "\<exists>e r' st'. paste_loop Read checksum buf r st = Some (Err e, r', st')"
  using assms
proof (induction arbitrary: buf st rule: fails.induct)
  case (failsI r)
  from failsI.IH [OF failsI.prems] obtain n err q r' where
    rd: "Read r buf = (Ok (n, err), q, r')" "length q = length buf" and
    nx: "err = None \<and> (\<forall>buf st. 0 < length buf \<longrightarrow> (\<exists>e r'' st'. paste_loop Read checksum buf r' st = Some (Err e, r'', st'))) \<or>
      (\<exists>x. err = Some x \<and> \<not> errors_is x EOF)" by metis
  from nx show ?case
  proof
    assume e: "err = None \<and> (\<forall>buf st. 0 < length buf \<longrightarrow> (\<exists>e r'' st'. paste_loop Read checksum buf r' st = Some (Err e, r'', st')))"
    obtain tr st1 where tb: "take_block checksum (take n q) st = (tr, st1)" "tr = Ok () \<or> (\<exists>e. tr = Err e)"
      using take_block_cases by blast
    have "\<exists>e r'' st'. paste_loop Read checksum q r' st1 = Some (Err e, r'', st')"
      using e rd(2) failsI.prems by metis
    with rd tb e show ?case by (subst paste_loop.simps) auto
  next
    assume "\<exists>x. err = Some x \<and> \<not> errors_is x EOF"
    with rd show ?case by (subst paste_loop.simps) auto
  qed
qed

subsection \<open>The whole of Paste\<close>

lemma paste_config_positive: "0 < sint (pcfg_ChunkSize (paste_config opts))"
proof -
  have "0 < sint (pcfg_ChunkSize (fold paste_Apply opts c))" if "0 < sint (pcfg_ChunkSize c)" for c
    using that
  proof (induction opts arbitrary: c)
    case (Cons x opts)
    have "0 < sint (pcfg_ChunkSize (paste_Apply x c))" using Cons.prems by (cases x) auto
    with Cons.IH show ?case by simp
  qed simp
  moreover have "0 < sint (pcfg_ChunkSize paste_DefaultConfig)" by code_simp
  ultimately show ?thesis by (simp add: paste_config_def)
qed

text \<open>The reader over a fresh stream.\<close>

definition paste_reader :: "PastStream inbox \<Rightarrow> client_receiver Reader" where
  "paste_reader resp = NewReader (new_client_receiver resp)"

lemma paste_reader_simps [simp]:
  "reader_inv (paste_reader resp)" "paste_recv.rest (paste_reader resp) = concat (past_chunks (in_msgs resp))"
  "pr_fin (r_r (paste_reader resp)) = past_fin (in_end resp) (in_msgs resp)"
  "pr_sum (r_r (paste_reader resp)) = past_final_sum [] (in_msgs resp)"
  by (simp_all add: paste_reader_def paste_recv.rest_def NewReader_def new_client_receiver_def pr_defs reader_inv_def)

lemma new_decrypter_cases:
  "new_decrypter C secret info = Ok x \<Longrightarrow> x = None \<or> (\<exists>k iv x'. sio_DecryptReader C k iv = Ok x' \<and> x = Some x')"
  by (auto simp: new_decrypter_def bind_result_Ok_iff split: if_splits)

lemma new_decoder_cases:
  "new_decoder C info = Ok y \<Longrightarrow> y = None \<or> (\<exists>y'. zstd_NewReader C = Inr y' \<and> y = Some y')"
  by (auto simp: new_decoder_def bind_result_Ok_iff split: if_splits)

lemma paste_receive_delivers:
  assumes "new_decrypter C secret info = Ok x" and "new_decoder C info = Ok y" and "0 < sint chunkSize" and "sink_reliable w"
    and "delivers (input_Read C) (\<lambda>inp. Reader_Checksum client_Checksum (fst (fst inp)) = sm) EOF ((paste_reader resp, x), y) D"
  shows "\<exists>w'. paste_receive C secret chunkSize info resp w =
    (check_sum C (pi_Checksum info) sm (if pi_Checksum info then D else []), w') \<and> sk_data w' = sk_data w @ D"
proof -
  obtain inp w' where "paste_loop (input_Read C) (pi_Checksum info) (replicate (nat (sint chunkSize)) 0) ((paste_reader resp, x), y) ([], w) =
      Some (Ok (), inp, if pi_Checksum info then [] @ D else [], w')" "Reader_Checksum client_Checksum (fst (fst inp)) = sm"
    "sk_data w' = sk_data w @ D"
    using paste_loop_delivers [OF assms(5) _ assms(4), of "replicate (nat (sint chunkSize)) 0" "pi_Checksum info" "[]"] assms(3) by auto
  with assms(1-3) show ?thesis by (auto simp: paste_receive_def paste_reader_def [symmetric])
qed

lemma paste_receive_fails:
  assumes "0 < sint chunkSize"
    and "\<And>x y. new_decrypter C secret info = Ok x \<Longrightarrow> new_decoder C info = Ok y \<Longrightarrow> fails (input_Read C) ((paste_reader resp, x), y)"
  shows "fst (paste_receive C secret chunkSize info resp w) \<noteq> Ok ()"
proof (cases "(\<exists>x. new_decrypter C secret info = Ok x) \<and> (\<exists>y. new_decoder C info = Ok y)")
  case True
  then obtain x y where xy: "new_decrypter C secret info = Ok x" "new_decoder C info = Ok y" by blast
  from paste_loop_fails [OF assms(2) [OF xy], of "replicate (nat (sint chunkSize)) 0" "pi_Checksum info" "([], w)"] assms(1)
  obtain e r' st' where "paste_loop (input_Read C) (pi_Checksum info) (replicate (nat (sint chunkSize)) 0)
      ((paste_reader resp, x), y) ([], w) = Some (Err e, r', st')" by auto
  with xy assms(1) show ?thesis by (cases st') (auto simp: paste_receive_def paste_reader_def [symmetric])
next
  case False
  then show ?thesis
    by (cases "new_decrypter C secret info"; cases "new_decoder C info") (auto simp: paste_receive_def)
qed

lemma Client_Paste_info:
  assumes "rpc \<lparr>po_TransferRate = pcfg_ChunkSize (paste_config opts), po_unknownFields = []\<rparr> (pcfg_ChunkSize (paste_config opts) + 1000) =
      Inr \<lparr>in_msgs = m # ms, in_end = e\<rparr>"
    and "ps_Data m = Some (PS_Info info)"
  shows "Client_Paste C rpc secret w opts =
    paste_receive C secret (pcfg_ChunkSize (paste_config opts)) info \<lparr>in_msgs = ms, in_end = e\<rparr> w"
  using assms by (simp add: Client_Paste_def)

end
