(* ===== verification/Client_Sample.thy ===== *)
theory Client_Sample
  imports Client_Paste
begin

text \<open>
  Libraries that satisfy the laws of \<^verbatim>\<open>Client_Laws\<close>, and readers and sinks to run the client on. Cipher and compression are the same simple format: a
  mark, which for the cipher depends on the key, followed by the data. The decrypting reader refuses any other mark.
\<close>

subsection \<open>A marked stream\<close>

fun marked_Write :: "byte \<times> bool \<Rightarrow> bytes \<Rightarrow> pieces \<times> (byte \<times> bool)" where
  "marked_Write (m, started) p = (((if started then [] else [[m]]) @ [p], None), (m, True))"

fun marked_Close :: "byte \<times> bool \<Rightarrow> pieces" where
  "marked_Close (m, started) = (if started then [] else [[m]], None)"

definition err_mark :: goerr where "err_mark = External (str ''not authentic'')"

fun marked_Read :: "'r io_read \<Rightarrow> ((byte \<times> bool) \<times> 'r) io_read" where
  "marked_Read Read ((m, checked), r) p =
     (if checked then (let (x, q, r1) = Read r p in (x, q, (m, True), r1))
      else
        (case Read r [0] of
           (Ok (n, e), q, r1) \<Rightarrow>
             if n = 0 then
               (Ok (0, if e = Some EOF then Some err_mark else e), p, (m, False), r1)
             else if hd q = m then (Ok (0, e), p, (m, True), r1)
             else (Ok (0, Some err_mark), p, (m, False), r1)
         | (Err e, q, r1) \<Rightarrow> (Err e, p, (m, False), r1)
         | (Panic x, q, r1) \<Rightarrow> (Panic x, p, (m, False), r1)
         | (Loop, q, r1) \<Rightarrow> (Loop, p, (m, False), r1)))"

lemma marked_run: "run_writes marked_Write (m, True) ps = (ps, True, (m, True))"
  by (induction ps) auto

lemma marked_emits [simp]: "emits_ok marked_Write marked_Close (m, False) ps"
  by (cases ps) (auto simp: emits_ok_def marked_run)

lemma marked_emitted [simp]: "concat (emitted marked_Write marked_Close (m, False) ps) = m # concat ps"
  by (cases ps) (auto simp: emitted_def marked_run)

lemma marked_checked: "delivers Read Q e r D \<Longrightarrow> delivers (marked_Read Read) (\<lambda>s. Q (snd s)) e ((m, True), r) D"
  by (rule delivers_sim [where f = "\<lambda>r. ((m, True), r)"]) simp_all

lemma marked_checked_fails: "fails Read r \<Longrightarrow> fails (marked_Read Read) ((m, True), r)"
  by (rule fails_sim [where f = "\<lambda>r. ((m, True), r)"]) simp_all

lemma one_byte: "length q = Suc 0 \<Longrightarrow> n \<noteq> 0 \<Longrightarrow> n \<le> Suc 0 \<Longrightarrow> take n q = take n (a # D) \<Longrightarrow> n = 1 \<and> hd q = a"
  by (cases q) auto

lemma marked_delivers:
  assumes "delivers Read Q EOF r D0" and "D0 = m # D"
  shows "delivers (marked_Read Read) (\<lambda>s. Q (snd s)) EOF ((m, False), r) D"
  using assms
proof (induction arbitrary: D rule: delivers.induct)
  case (deliversI r D0)
  from deliversI.IH [of "[0]"] obtain n err q r' where
    rd: "Read r [0] = (Ok (n, err), q, r')" "length q = Suc 0" "n \<le> Suc 0" "n \<le> length D0" "take n q = take n (m # D)" and
    nx: "err = None \<and> delivers Read Q EOF r' (drop n D0) \<and>
        (\<forall>D. drop n D0 = m # D \<longrightarrow> delivers (marked_Read Read) (\<lambda>s. Q (snd s)) EOF ((m, False), r') D) \<or>
      err = Some EOF \<and> n = length D0 \<and> Q r'" using deliversI.prems by auto
  show ?case
  proof (rule delivers.deliversI, cases "n = 0")
    case True
    fix p :: bytes
    show "\<exists>n err q r'. marked_Read Read ((m, False), r) p = (Ok (n, err), q, r') \<and> length q = length p \<and> n \<le> length p \<and>
        n \<le> length D \<and> take n q = take n D \<and> (err = None \<and> delivers (marked_Read Read) (\<lambda>s. Q (snd s)) EOF r' (drop n D) \<or>
        err = Some EOF \<and> n = length D \<and> Q (snd r'))"
      using rd nx True deliversI.prems by auto
  next
    case False
    fix p :: bytes
    from one_byte [OF rd(2) False rd(3,5)] have n: "n = 1" "hd q = m" by auto
    show "\<exists>n err q r'. marked_Read Read ((m, False), r) p = (Ok (n, err), q, r') \<and> length q = length p \<and> n \<le> length p \<and>
        n \<le> length D \<and> take n q = take n D \<and> (err = None \<and> delivers (marked_Read Read) (\<lambda>s. Q (snd s)) EOF r' (drop n D) \<or>
        err = Some EOF \<and> n = length D \<and> Q (snd r'))"
      using rd(1) nx n deliversI.prems marked_checked [of Read Q EOF r' D m] by auto
  qed
qed

lemma marked_fails:
  assumes "fails Read r"
  shows "fails (marked_Read Read) ((m, False), r)"
  using assms
proof (induction rule: fails.induct)
  case (failsI r)
  from failsI.IH [of "[0]"] obtain n err q r' where rd: "Read r [0] = (Ok (n, err), q, r')" and
    nx: "err = None \<and> fails Read r' \<and> fails (marked_Read Read) ((m, False), r') \<or> (\<exists>x. err = Some x \<and> \<not> errors_is x EOF)" by auto
  show ?case
    by (rule fails.failsI) (use rd nx marked_checked_fails [of Read r' m] in \<open>auto simp: err_mark_def\<close>)
qed

lemma marked_rejects:
  assumes "delivers Read Q EOF r D0" and "\<nexists>D. D0 = m # D"
  shows "fails (marked_Read Read) ((m, False), r)"
  using assms
proof (induction rule: delivers.induct)
  case (deliversI r D0)
  from deliversI.IH [of "[0]"] obtain n err q r' where
    rd: "Read r [0] = (Ok (n, err), q, r')" "length q = Suc 0" "n \<le> Suc 0" "n \<le> length D0" "take n q = take n D0" and
    nx: "err = None \<and> ((\<nexists>D. drop n D0 = m # D) \<longrightarrow> fails (marked_Read Read) ((m, False), r')) \<or>
      err = Some EOF \<and> n = length D0" by auto
  have "n = 0 \<or> hd q \<noteq> m" using deliversI.prems rd(2-5) by (cases q; cases D0) (auto simp: le_Suc_eq)
  then show ?case
    by (intro fails.failsI) (use rd(1) nx deliversI.prems in \<open>auto simp: err_mark_def\<close>)
qed

subsection \<open>The libraries\<close>

type_synonym mark = "byte \<times> bool"

definition sample_clib :: "(byte, mark, mark, mark, mark, unit, nat) clib" where
  "sample_clib =
     \<lparr>scrypt_Key = (\<lambda>password nonce n r p len. Inr (password @ nonce)), hkdf_Read = (\<lambda>key nonce len. Inr (key @ nonce)),
      sio_Stream = (\<lambda>key. Inr (sum_list key)), sio_NonceSize = (\<lambda>k. 1), sio_EncryptWriter = (\<lambda>k iv. (k, False)),
      sio_Write = marked_Write, sio_Close = marked_Close, sio_DecryptReader = (\<lambda>k iv. Ok (k, False)), sio_Read = marked_Read,
      zstd_NewWriter = Inr (40, False), zstd_Write = marked_Write, zstd_Close = marked_Close, zstd_NewReader = Inr (40, False),
      zstd_Read = marked_Read, sha256_Sum = (\<lambda>d. replicate 31 0 @ [sum_list d]), rand_Read = (\<lambda>g n. (replicate n 3, g)),
      speed = (\<lambda>n d. n), float64 = unat\<rparr>"

lemma sample_cipher_laws: "cipher_laws sample_clib"
  by (simp add: cipher_laws_def sample_clib_def marked_fails marked_delivers [OF _ refl]) blast

lemma sample_zstd_laws: "zstd_laws sample_clib"
  by (simp add: zstd_laws_def) (simp add: sample_clib_def marked_fails marked_delivers [OF _ refl], blast)

lemma sample_clib_laws: "clib_laws sample_clib"
  by (simp add: clib_laws_def sample_cipher_laws sample_zstd_laws) (simp add: sample_clib_def sha256_Size_def)

lemma sample_authentic: "authentic sample_clib"
  unfolding authentic_def
proof (intro allI impI)
  fix k iv x Q r c
  assume x: "sio_DecryptReader sample_clib k iv = Ok x" and d: "delivers gr_Read Q EOF r c"
    and no: "\<nexists>ps. emits_ok (sio_Write sample_clib) (sio_Close sample_clib) (sio_EncryptWriter sample_clib k iv) ps \<and>
      c = concat (emitted (sio_Write sample_clib) (sio_Close sample_clib) (sio_EncryptWriter sample_clib k iv) ps)"
  have "\<nexists>D. c = k # D"
  proof
    assume "\<exists>D. c = k # D"
    then obtain D where "c = k # concat [D]" by auto
    then show False using no by (simp add: sample_clib_def) (metis concat.simps append_Nil2)
  qed
  from marked_rejects [OF d this] x show "fails (sio_Read sample_clib gr_Read) (x, r)" by (simp add: sample_clib_def)
qed

subsection \<open>An input\<close>

definition bytes_Read :: "bytes io_read" where
  "bytes_Read r p =
     (if r = [] then (Ok (0, Some EOF), p, [])
      else (Ok (min (length r) (length p), None), take (length p) r @ drop (length r) p, drop (length p) r))"

lemma bytes_sticky: "sticky bytes_Read (\<lambda>r. r = [])"
  by (simp add: sticky_def bytes_Read_def)

lemma bytes_delivers: "delivers bytes_Read (\<lambda>r. r = []) EOF D D"
proof (induction "length D" arbitrary: D rule: less_induct)
  case less
  show ?case
  proof (rule deliversI)
    fix p :: bytes
    assume "0 < length p"
    then have "D \<noteq> [] \<Longrightarrow> delivers bytes_Read (\<lambda>r. r = []) EOF (drop (length p) D) (drop (length p) D)"
      by (intro less.hyps) simp
    then show "\<exists>n err q r'. bytes_Read D p = (Ok (n, err), q, r') \<and> length q = length p \<and> n \<le> length p \<and> n \<le> length D \<and>
        take n q = take n D \<and> (err = None \<and> delivers bytes_Read (\<lambda>r. r = []) EOF r' (drop n D) \<or> err = Some EOF \<and> n = length D \<and> r' = [])"
      by (auto simp: bytes_Read_def min_def)
  qed
qed

lemma bytes_feeding: "feeding bytes_Read (\<lambda>r. r = []) D D"
  by (simp add: feeding_def bytes_delivers)

end
