(* ===== verification/Storage_Gc.thy ===== *)
theory Storage_Gc
  imports Storage_Laws
begin

text \<open>
  \<^verbatim>\<open>storage/gc.go\<close> and the collector that \<open>NewBadgerDB\<close> starts: \<open>discard\<close> deletes the entries that belong neither to
  the current clipboard nor to a version under way, at most a given number of them and within a time limit.

  The clock is an argument: \<open>timeout i\<close> says whether the context is done when the loop looks at its \<open>i\<close>-th key. The
  random direction of the iterator is the argument \<open>reverse\<close>.
\<close>

definition runGC :: "('d, 't, 'w, 'u) lib \<Rightarrow> ('d, 'u) BadgerDB \<Rightarrow> unit result \<times> ('d, 'u) BadgerDB" where
  "runGC L b = (let (e, d) = bg_value_log_gc L (db_db b) in (lift_err e, b\<lparr>db_db := d\<rparr>))"

text \<open>A nil item is \<open>None\<close>; the index is nil when there is no clipboard.\<close>

fun getIndex :: "('d, 't, 'w, 'u) lib \<Rightarrow> item option \<Rightarrow> bytes option result" where
  "getIndex L None = Ok None"
| "getIndex L (Some item) =
     bind_result (lift_sum item) (\<lambda>v.
     bind_result (lift_sum (pb_unmarshal_cb L v)) (\<lambda>cb. Ok (Some (index_prefix (cb_Sequence cb)))))"

fun getLockedTransaction :: "('d, 't, 'w, 'u) lib \<Rightarrow> item option \<Rightarrow> (bytes \<rightharpoonup> bytes) result" where
  "getLockedTransaction L None = Ok Map.empty"
| "getLockedTransaction L (Some item) =
     bind_result (lift_sum item) (\<lambda>v.
     bind_result (lift_sum (pb_unmarshal_lt L v)) (\<lambda>m. Ok (lt_Versions m)))"

text \<open>\<^verbatim>\<open>txn.Get\<close> where a missing key is not an error.\<close>

definition get_item :: "('d, 't, 'w, 'u) lib \<Rightarrow> 't \<Rightarrow> bytes \<Rightarrow> item option result" where
  "get_item L t k =
     (case bg_get L t k of
        Inr item \<Rightarrow> Ok (Some item)
      | Inl e \<Rightarrow> if errors_is e BadgerErrKeyNotFound then Ok None else Err e)"

definition kept_key :: "bytes option \<Rightarrow> bytes \<Rightarrow> bool" where
  "kept_key index k \<longleftrightarrow> (case index of Some p \<Rightarrow> prefix p k | None \<Rightarrow> False) \<or>
     k = latestKey \<or> k = versionKey \<or> k = pendingTxnKey"

definition locked_key :: "(bytes \<rightharpoonup> bytes) \<Rightarrow> bytes \<Rightarrow> bool" where
  "locked_key locked k \<longleftrightarrow> locked (first_segment k) \<noteq> None"

text \<open>
  The loop over the keys of the iterator. A transaction that is full is committed, with the iterator still open, and the
  deletion goes on in a new one.
\<close>

fun discard_loop ::
  "('d, 't, 'w, 'u) lib \<Rightarrow> (nat \<Rightarrow> bool) \<Rightarrow> int \<Rightarrow> bytes option \<Rightarrow> (bytes \<rightharpoonup> bytes) \<Rightarrow> bytes list \<Rightarrow> nat \<Rightarrow> nat \<Rightarrow> 't \<Rightarrow> 'd \<Rightarrow>
     (nat \<times> 't) result \<times> 'd" where
  "discard_loop L timeout keys index locked [] i deleted t d = (Ok (deleted, t), d)"
| "discard_loop L timeout keys index locked (k # ks) i deleted t d =
     (if timeout i then (Ok (deleted, t), d)
      else if keys \<le> int deleted then (Ok (deleted, t), d)
      else if kept_key index k \<or> locked_key locked k
        then discard_loop L timeout keys index locked ks (Suc i) deleted t d
      else (case bg_delete L t k of
              (None, t1) \<Rightarrow> discard_loop L timeout keys index locked ks (Suc i) (Suc deleted) t1 d
            | (Some e, t1) \<Rightarrow>
                if errors_is e BadgerErrTxnTooBig then
                  (case bg_commit_open L t1 d of
                     (Ok _, d1) \<Rightarrow>
                       (case bg_delete L (bg_txn L d1) k of
                          (None, t2) \<Rightarrow> discard_loop L timeout keys index locked ks (Suc i) (Suc deleted) t2 d1
                        | (Some e2, t2) \<Rightarrow> (Err e2, d1))
                   | (Err e1, d1) \<Rightarrow> (Err e1, d1)
                   | (Panic p, d1) \<Rightarrow> (Panic p, d1)
                   | (Loop, d1) \<Rightarrow> (Loop, d1))
                else (Err e, d)))"

definition discard ::
  "('d, 't, 'w, 'u) lib \<Rightarrow> (nat \<Rightarrow> bool) \<Rightarrow> bool \<Rightarrow> ('d, 'u) BadgerDB \<Rightarrow> int \<Rightarrow> nat result \<times> ('d, 'u) BadgerDB" where
  "discard L timeout reverse b keys =
     (let d = db_db b; t = bg_txn L d
      in and_then (bind_result (get_item L t latestKey) (getIndex L), b) (\<lambda>index b.
         and_then (bind_result (get_item L t pendingTxnKey) (getLockedTransaction L), b) (\<lambda>locked b.
           case discard_loop L timeout keys index locked (map fst (bg_items L t reverse)) 0 0 t d of
             (Ok (deleted, t1), d1) \<Rightarrow>
               (let (e, d2) = bg_commit L t1 d1
                in and_then (lift_err e, b\<lparr>db_db := d2\<rparr>) (\<lambda>_ b2. (Ok deleted, b2)))
           | (Err e, d1) \<Rightarrow> (Err e, b\<lparr>db_db := d1\<rparr>)
           | (Panic p, d1) \<Rightarrow> (Panic p, b\<lparr>db_db := d1\<rparr>)
           | (Loop, d1) \<Rightarrow> (Loop, b\<lparr>db_db := d1\<rparr>))))"

text \<open>
  One tick of the collector: value-log compaction for as long as it succeeds, then \<open>discard\<close>, whose outcome is only
  logged. \<open>None\<close>: the compaction succeeds for ever.
\<close>

partial_function (option) gc_again ::
  "('d, 't, 'w, 'u) lib \<Rightarrow> ('d, 'u) BadgerDB \<Rightarrow> ('d, 'u) BadgerDB option" where
  "gc_again L b =
     (case runGC L b of
        (Ok _, b1) \<Rightarrow> gc_again L b1
      | (_, b1) \<Rightarrow> Some b1)"

declare gc_again.simps [code]

definition gc_tick ::
  "('d, 't, 'w, 'u) lib \<Rightarrow> (nat \<Rightarrow> bool) \<Rightarrow> bool \<Rightarrow> ('d, 'u) BadgerDB \<Rightarrow> nat result \<times> ('d, 'u) BadgerDB" where
  "gc_tick L timeout reverse b =
     (case gc_again L b of
        None \<Rightarrow> (Loop, b)
      | Some b1 \<Rightarrow> discard L timeout reverse b1 (int discardKeyMaxNumber))"

subsection \<open>What the collector may and may not remove\<close>

text \<open>\<open>m'\<close> is \<open>m\<close> with some entries removed, none of them among the ones to keep.\<close>

definition shrinks :: "(bytes \<Rightarrow> bool) \<Rightarrow> (bytes \<rightharpoonup> bytes) \<Rightarrow> (bytes \<rightharpoonup> bytes) \<Rightarrow> bool" where
  "shrinks keep m m' \<longleftrightarrow> (\<forall>k. m' k = m k \<or> m' k = None \<and> \<not> keep k)"

lemma shrinks_refl [simp]: "shrinks keep m m"
  by (simp add: shrinks_def)

lemma shrinks_delete: "shrinks keep m0 m \<Longrightarrow> \<not> keep k \<Longrightarrow> shrinks keep m0 (m(k := None))"
  by (simp add: shrinks_def)

lemma shrinks_keep: "shrinks keep m m' \<Longrightarrow> keep k \<Longrightarrow> m' k = m k"
  unfolding shrinks_def by blast

definition discard_post ::
  "('d, 't, 'w, 'u) view \<Rightarrow> (nat \<Rightarrow> bool) \<Rightarrow> int \<Rightarrow> (bytes \<Rightarrow> bool) \<Rightarrow> (bytes \<rightharpoonup> bytes) \<Rightarrow> bytes list \<Rightarrow> nat \<Rightarrow> 't \<Rightarrow> 'd \<Rightarrow>
     (nat \<times> 't) result \<times> 'd \<Rightarrow> bool" where
  "discard_post V timeout keys keep m0 ks deleted t d x \<longleftrightarrow> (let (r, d') = x in
     nxt V d' = nxt V d \<and> shrinks keep m0 (live V d') \<and>
     (\<forall>n t'. r = Ok (n, t') \<longrightarrow>
        base V t' = live V d' \<and> shrinks keep m0 (seen V t') \<and>
        deleted \<le> n \<and> int n \<le> max (int deleted) keys \<and> (\<forall>k. seen V t k = None \<longrightarrow> seen V t' k = None) \<and>
        ((\<forall>j. \<not> timeout j) \<longrightarrow> int (deleted + length ks) \<le> keys \<longrightarrow>
           (\<forall>k \<in> set ks. keep k \<or> seen V t' k = None))))"

lemma discard_post_Cons:
  assumes "discard_post V timeout keys keep m0 ks deleted' t1 d1 x" and "deleted \<le> deleted'" and "deleted' \<le> Suc deleted"
    and "int deleted < keys" and "nxt V d1 = nxt V d" and "\<And>k. seen V t k = None \<Longrightarrow> seen V t1 k = None"
    and "keep k \<or> seen V t1 k = None"
  shows "discard_post V timeout keys keep m0 (k # ks) deleted t d x"
  using assms by (cases x) (fastforce simp: discard_post_def)

lemma discard_loop_spec:
  assumes "lib_laws L V" and "keep = (\<lambda>k. kept_key index k \<or> locked_key locked k)"
    and "base V t = live V d" and "shrinks keep m0 (live V d)" and "shrinks keep m0 (seen V t)"
  shows "discard_post V timeout keys keep m0 ks deleted t d (discard_loop L timeout keys index locked ks i deleted t d)"
  using assms(3-5)
proof (induction ks arbitrary: i deleted t d)
  case Nil
  then show ?case by (simp add: discard_post_def)
next
  case (Cons k ks)
  consider (stop) "timeout i \<or> keys \<le> int deleted" | (kept) "\<not> timeout i" "int deleted < keys" "keep k"
    | (gone) "\<not> timeout i" "int deleted < keys" "\<not> keep k" by force
  then show ?case
  proof cases
    case stop
    with Cons.prems show ?thesis by (auto simp: discard_post_def)
  next
    case kept
    have "discard_post V timeout keys keep m0 (k # ks) deleted t d
        (discard_loop L timeout keys index locked ks (Suc i) deleted t d)"
      by (rule discard_post_Cons [OF Cons.IH]) (use Cons.prems kept in auto)
    with kept show ?thesis by (simp add: assms(2))
  next
    case gone
    obtain e t1 where del: "bg_delete L t k = (e, t1)" by fastforce
    note t1 = lib_laws_delete [OF assms(1) del]
    show ?thesis
    proof (cases e)
      case None
      have "discard_post V timeout keys keep m0 ks (Suc deleted) t1 d
          (discard_loop L timeout keys index locked ks (Suc i) (Suc deleted) t1 d)"
        using Cons.prems t1 None gone shrinks_delete [OF Cons.prems(3) gone(3)] by (intro Cons.IH) (simp_all only: if_True simp_thms)
      then have "discard_post V timeout keys keep m0 (k # ks) deleted t d
          (discard_loop L timeout keys index locked ks (Suc i) (Suc deleted) t1 d)"
        by (rule discard_post_Cons) (use gone t1 None in auto)
      with gone del None show ?thesis by (simp add: assms(2))
    next
      case (Some x)
      obtain r d1 where c: "bg_commit_open L t1 d = (r, d1)" by fastforce
      have d1: "nxt V d1 = nxt V d" "live V d1 = (if r = Ok () then seen V t else live V d)"
        using lib_laws_admin(3) [OF assms(1) c] t1 Some Cons.prems(1) by auto
      obtain e2 t2 where del2: "bg_delete L (bg_txn L d1) k = (e2, t2)" by fastforce
      note t2 = lib_laws_delete [OF assms(1) del2]
      have s1: "shrinks keep m0 (live V d1)" using d1 Cons.prems by auto
      show ?thesis
      proof (cases "errors_is x BadgerErrTxnTooBig \<and> r = Ok () \<and> e2 = None")
        case True
        have "discard_post V timeout keys keep m0 ks (Suc deleted) t2 d1
            (discard_loop L timeout keys index locked ks (Suc i) (Suc deleted) t2 d1)"
          using t2 True s1 shrinks_delete [OF s1 gone(3)]
          by (intro Cons.IH) (simp_all only: if_True simp_thms lib_laws_txn(1,2) [OF assms(1)])
        then have "discard_post V timeout keys keep m0 (k # ks) deleted t d
            (discard_loop L timeout keys index locked ks (Suc i) (Suc deleted) t2 d1)"
          by (rule discard_post_Cons) (use gone True t2 d1 in \<open>auto simp: lib_laws_txn [OF assms(1)]\<close>)
        with gone del Some c del2 True show ?thesis by (simp add: assms(2))
      next
        case no: False
        with gone del Some c del2 d1 s1 Cons.prems show ?thesis
          by (auto simp: assms(2) discard_post_def split: result.splits option.splits)
      qed
    qed
  qed
qed

subsection \<open>discard as a whole\<close>

text \<open>The entries the collector has to keep, given the content of the database.\<close>

definition index_of :: "('d, 't, 'w, 'u) lib \<Rightarrow> (bytes \<rightharpoonup> bytes) \<Rightarrow> bytes option" where
  "index_of L m =
     (case m latestKey of
        None \<Rightarrow> None
      | Some v \<Rightarrow> (case pb_unmarshal_cb L v of Inl e \<Rightarrow> None | Inr cb \<Rightarrow> Some (index_prefix (cb_Sequence cb))))"

definition locked_of :: "('d, 't, 'w, 'u) lib \<Rightarrow> (bytes \<rightharpoonup> bytes) \<Rightarrow> bytes \<rightharpoonup> bytes" where
  "locked_of L m =
     (case m pendingTxnKey of
        None \<Rightarrow> Map.empty
      | Some v \<Rightarrow> (case pb_unmarshal_lt L v of Inl e \<Rightarrow> Map.empty | Inr lt \<Rightarrow> lt_Versions lt))"

definition gc_keeps :: "('d, 't, 'w, 'u) lib \<Rightarrow> (bytes \<rightharpoonup> bytes) \<Rightarrow> bytes \<Rightarrow> bool" where
  "gc_keeps L m k \<longleftrightarrow> kept_key (index_of L m) k \<or> locked_key (locked_of L m) k"

lemma get_item_eq:
  "lib_laws L V \<Longrightarrow> get_item L (bg_txn L d) k = Ok (map_option Inr (live V d k))"
  by (simp add: get_item_def lib_laws_txn(2,4) split: option.splits)

lemma getIndex_of:
  "getIndex L (map_option Inr (m latestKey)) = Ok index \<Longrightarrow> index = index_of L m"
  by (cases "m latestKey") (auto simp: index_of_def bind_result_Ok_iff)

lemma getLocked_of:
  "getLockedTransaction L (map_option Inr (m pendingTxnKey)) = Ok locked \<Longrightarrow> locked = locked_of L m"
  by (cases "m pendingTxnKey") (auto simp: locked_of_def bind_result_Ok_iff)

lemma iterator_keys:
  assumes "lib_laws L V"
  shows "set (map fst (bg_items L (bg_txn L d) reverse)) = dom (live V d)"
    and "length (bg_items L (bg_txn L d) reverse) = card (dom (live V d))"
proof -
  obtain es where es: "sorted_wrt (<) (map fst es)" "map_of es = live V d"
    "bg_items L (bg_txn L d) False = map (apsnd Inr) es" "bg_items L (bg_txn L d) True = rev (map (apsnd Inr) es)"
    using lib_laws_txn(5) [OF assms, of "bg_txn L d"] lib_laws_txn(2) [OF assms] by auto
  have k: "dom (live V d) = set (map fst es)" by (simp add: dom_map_of_conv_image_fst flip: es(2))
  have "distinct (map fst es)" using es(1) by (simp add: strict_sorted_iff)
  then have c: "card (dom (live V d)) = length es" unfolding k by (metis distinct_card length_map)
  show "set (map fst (bg_items L (bg_txn L d) reverse)) = dom (live V d)"
    using k es(3,4) by (cases reverse) (auto simp: image_comp)
  show "length (bg_items L (bg_txn L d) reverse) = card (dom (live V d))"
    using c es(3,4) by (cases reverse) auto
qed

lemma discard_spec:
  assumes "lib_laws L V" and "discard L timeout reverse b keys = (r, b')"
    and "m = live V (db_db b)" and "m' = live V (db_db b')"
  shows "nxt V (db_db b') = nxt V (db_db b) \<and> db_chunkSize b' = db_chunkSize b \<and> shrinks (gc_keeps L m) m m' \<and>
    (\<forall>n. r = Ok n \<longrightarrow> int n \<le> max 0 keys \<and>
       ((\<forall>j. \<not> timeout j) \<longrightarrow> int (card (dom m)) \<le> keys \<longrightarrow> (\<forall>k \<in> dom m'. gc_keeps L m k)))"
proof -
  let ?t = "bg_txn L (db_db b)"
  obtain ri where ri: "getIndex L (map_option Inr (m latestKey)) = ri" by blast
  obtain rl where rl: "getLockedTransaction L (map_option Inr (m pendingTxnKey)) = rl" by blast
  show ?thesis
  proof (cases "(\<exists>x. ri = Ok x) \<and> (\<exists>x. rl = Ok x)")
    case False
    then have "b' = b" "\<And>n. r \<noteq> Ok n"
      using assms(2,3) ri rl
      by (cases ri; cases rl; auto simp: discard_def Let_def get_item_eq [OF assms(1)])+
    with assms(3,4) show ?thesis by simp
  next
    case True
    then have ok: "ri = Ok (index_of L m)" "rl = Ok (locked_of L m)"
      using getIndex_of [of L m] getLocked_of [of L m] ri rl by auto
    let ?ks = "map fst (bg_items L ?t reverse)"
    obtain r1 d1 where loop: "discard_loop L timeout keys (index_of L m) (locked_of L m) ?ks 0 0 ?t (db_db b) = (r1, d1)"
      by fastforce
    have post: "discard_post V timeout keys (gc_keeps L m) m ?ks 0 ?t (db_db b) (r1, d1)"
      using discard_loop_spec [OF assms(1), of "gc_keeps L m" "index_of L m" "locked_of L m" ?t "db_db b" m timeout keys ?ks 0 0]
        assms(3) loop lib_laws_txn(1,2) [OF assms(1)] by (simp add: gc_keeps_def [abs_def])
    show ?thesis
    proof (cases r1)
      case (Ok nt)
      then obtain n t1 where r1: "r1 = Ok (n, t1)" by (cases nt) auto
      obtain e d2 where c: "bg_commit L t1 d1 = (e, d2)" by fastforce
      have d2: "nxt V d2 = nxt V d1" "live V d2 = (if e = None then seen V t1 else live V d1)"
        using lib_laws_commit [OF assms(1) c] post r1 by (auto simp: discard_post_def)
      have run: "b' = b\<lparr>db_db := d2\<rparr>" "r = (case e of None \<Rightarrow> Ok n | Some x \<Rightarrow> Err x)"
        using assms(2,3) ri rl ok loop r1 c
        by (cases e; auto simp: discard_def Let_def get_item_eq [OF assms(1)])+
      have all: "gc_keeps L m k" if "e = None" "\<forall>j. \<not> timeout j" "int (card (dom m)) \<le> keys" "k \<in> dom m'" for k
      proof -
        have "\<forall>k \<in> set ?ks. gc_keeps L m k \<or> seen V t1 k = None"
          using post r1 that(2,3) iterator_keys(2) [OF assms(1), of "db_db b" reverse] assms(3)
          by (simp add: discard_post_def)
        moreover have m': "m' = seen V t1" using that(1) d2 run assms(4) by simp
        moreover have "k \<in> dom m"
        proof -
          have "shrinks (gc_keeps L m) m (seen V t1)" using post r1 by (simp add: discard_post_def)
          with that(4) m' show ?thesis unfolding shrinks_def by (metis domIff)
        qed
        ultimately show ?thesis
          using that(4) iterator_keys(1) [OF assms(1), of "db_db b" reverse] assms(3) by (metis domIff)
      qed
      show ?thesis
        using post r1 d2 run assms(3,4) all by (auto simp: discard_post_def split: option.splits)
    qed (use assms(2-4) ri rl ok loop post in \<open>auto simp: discard_def Let_def get_item_eq [OF assms(1)] discard_post_def\<close>)
  qed
qed

end
