(* ===== verification/Storage_Sample.thy ===== *)
theory Storage_Sample
  imports Storage_Laws
begin

text \<open>
  A database in memory that satisfies the laws of \<^verbatim>\<open>Storage_Laws\<close>: they can hold together, and statements that assume
  them can be tried on concrete data. The content is a list of entries, newest first; a batch commits when it holds
  \<open>2\<close> entries, so that early commits occur; the messages are encoded with the program's own codec.
\<close>

type_synonym mem = "(bytes \<times> bytes) list \<times> nat"       \<comment> \<open>entries, next version\<close>
type_synonym mem_txn = "(bytes \<times> bytes) list \<times> (bytes \<times> bytes) list" \<comment> \<open>base, current\<close>
type_synonym mem_batch = "(bytes \<times> bytes) list"
type_synonym mem_entropy = nat

definition mem_items :: "mem_txn \<Rightarrow> bool \<Rightarrow> (bytes \<times> item) list" where
  "mem_items t reverse =
     (let es = map (\<lambda>k. (k, Inr (the (map_of (snd t) k)))) (sorted_list_of_set (set (map fst (snd t))))
      in if reverse then rev es else es)"

definition mem_delete :: "(bytes \<times> bytes) list \<Rightarrow> bytes \<Rightarrow> (bytes \<times> bytes) list" where
  "mem_delete es k = filter (\<lambda>kv. fst kv \<noteq> k) es"

text \<open>Identifiers: 26 digits, counting up. They end before the counter needs more digits.\<close>

definition mem_ulid :: "nat \<Rightarrow> bytes" where
  "mem_ulid n = replicate 25 48 @ [word_of_nat (48 + n)]"

definition mem_ulid_new :: "mem_entropy \<Rightarrow> (goerr + bytes) \<times> mem_entropy" where
  "mem_ulid_new u = (if u < 100 then (Inr (mem_ulid (Suc u)), Suc u) else (Inl (External []), u))"

definition sum_of :: "'a result \<Rightarrow> goerr + 'a" where
  "sum_of r = (case r of Ok v \<Rightarrow> Inr v | Err e \<Rightarrow> Inl e | _ \<Rightarrow> Inl (External []))"

definition mem_marshal_cb :: "Clipboard \<Rightarrow> goerr + bytes" where
  "mem_marshal_cb cb =
     (if cb_unknownFields cb = [] \<and> Clipboard_SizeVT cb < 2 ^ 63 then sum_of (Clipboard_MarshalVT cb)
      else Inl (External []))"

text \<open>Some order of the entries of a map, each once, as \<^verbatim>\<open>range\<close> would produce it; \<open>[]\<close> for a map that is not finite.\<close>

definition some_order :: "LockedTransaction \<Rightarrow> (bytes \<times> bytes) list" where
  "some_order m = (SOME order. map_of order = lt_Versions m \<and> distinct (map fst order))"

declare some_order_def [code del]

definition representable :: "LockedTransaction \<Rightarrow> bool" where
  "representable m \<longleftrightarrow> map_of (some_order m) = lt_Versions m"

declare representable_def [code del]

definition mem_marshal_lt :: "LockedTransaction \<Rightarrow> goerr + bytes" where
  "mem_marshal_lt m =
     (if lt_unknownFields m = [] \<and> representable m \<and> LockedTransaction_SizeVT (some_order m) m < 2 ^ 63
      then sum_of (LockedTransaction_MarshalVT (some_order m) m) else Inl (External []))"

definition mem_lib :: "(mem, mem_txn, mem_batch, mem_entropy) lib" where
  "mem_lib =
     \<lparr>bg_open = (\<lambda>path inMemory. Inr ([], 0)),
      bg_get_sequence = (\<lambda>d k. (None, d)),
      bg_txn = (\<lambda>d. (fst d, fst d)),
      bg_get = (\<lambda>t k. case map_of (snd t) k of None \<Rightarrow> Inl BadgerErrKeyNotFound | Some v \<Rightarrow> Inr (Inr v)),
      bg_items = mem_items,
      bg_set = (\<lambda>t k v. (None, fst t, (k, v) # snd t)),
      bg_delete = (\<lambda>t k. (None, fst t, mem_delete (snd t) k)),
      bg_commit = (\<lambda>t d. (None, snd t, snd d)),
      bg_commit_open = (\<lambda>t d. (Panic LibraryPanic, d)),
      bg_new_batch = (\<lambda>d. []),
      bg_set_entry = (\<lambda>w d k v ttl.
        if length w < 2 then (None, (k, v) # w, d) else (None, [(k, v)], w @ fst d, snd d)),
      bg_flush = (\<lambda>w d. (None, [], w @ fst d, snd d)),
      bg_cancel = (\<lambda>w d. d),
      bg_seq_next = (\<lambda>d. if snd d < 1000 then (Inr (word_of_nat (snd d)), fst d, Suc (snd d)) else (Inl (External []), d)),
      bg_seq_release = (\<lambda>d. (None, d)),
      bg_close = (\<lambda>d. (None, d)),
      bg_drop_all = (\<lambda>d. (None, [], snd d)),
      bg_size = (\<lambda>d. (word_of_nat (length (fst d)), 0)),
      bg_value_log_gc = (\<lambda>d. (Some (External []), d)),
      pb_marshal_cb = mem_marshal_cb,
      pb_unmarshal_cb = (\<lambda>v. sum_of (Clipboard_UnmarshalVT Clipboard_empty v)),
      pb_marshal_lt = mem_marshal_lt,
      pb_unmarshal_lt = (\<lambda>v. sum_of (LockedTransaction_UnmarshalVT LockedTransaction_empty v)),
      ulid_new = mem_ulid_new,
      expire_at = (\<lambda>ttl. [])\<rparr>"

text \<open>The operations one by one, for evaluation by rewriting.\<close>

lemma mem_lib_sel [simp]:
  "bg_txn mem_lib d = (fst d, fst d)"
  "bg_get mem_lib t k = (case map_of (snd t) k of None \<Rightarrow> Inl BadgerErrKeyNotFound | Some v \<Rightarrow> Inr (Inr v))"
  "bg_items mem_lib = mem_items"
  "bg_set mem_lib t k v = (None, fst t, (k, v) # snd t)"
  "bg_delete mem_lib t k = (None, fst t, mem_delete (snd t) k)"
  "bg_commit mem_lib t d = (None, snd t, snd d)"
  "bg_new_batch mem_lib d = []"
  "bg_set_entry mem_lib w d k v ttl =
     (if length w < 2 then (None, (k, v) # w, d) else (None, [(k, v)], w @ fst d, snd d))"
  "bg_flush mem_lib w d = (None, [], w @ fst d, snd d)"
  "bg_cancel mem_lib w d = d"
  "bg_seq_next mem_lib d =
     (if snd d < 1000 then (Inr (word_of_nat (snd d)), fst d, Suc (snd d)) else (Inl (External []), d))"
  "bg_drop_all mem_lib d = (None, [], snd d)"
  "bg_value_log_gc mem_lib d = (Some (External []), d)"
  "pb_marshal_cb mem_lib = mem_marshal_cb"
  "pb_unmarshal_cb mem_lib v = sum_of (Clipboard_UnmarshalVT Clipboard_empty v)"
  "ulid_new mem_lib = mem_ulid_new"
  "expire_at mem_lib life = []"
  by (simp_all add: mem_lib_def)

lemma mem_marshal_cb_eq:
  "cb_unknownFields cb = [] \<Longrightarrow> Clipboard_SizeVT cb < 2 ^ 63 \<Longrightarrow> mem_marshal_cb cb = Inr (Clipboard_bytes cb)"
  by (simp add: mem_marshal_cb_def sum_of_def Clipboard_MarshalVT_eq)

lemma mem_unmarshal_cb_eq:
  "cb_unknownFields cb = [] \<Longrightarrow> Clipboard_SizeVT cb < 2 ^ 63 \<Longrightarrow>
   sum_of (Clipboard_UnmarshalVT Clipboard_empty (Clipboard_bytes cb)) = Inr cb"
  by (simp add: sum_of_def Clipboard_UnmarshalVT_bytes length_Clipboard_bytes)

definition mem_view :: "(mem, mem_txn, mem_batch, mem_entropy) view" where
  "mem_view =
     \<lparr>live = (\<lambda>d. map_of (fst d)), nxt = snd, base = (\<lambda>t. map_of (fst t)), seen = (\<lambda>t. map_of (snd t)),
      pend = map_of, last_id = mem_ulid\<rparr>"

lemma mem_items_law:
  "\<exists>es. sorted_wrt (<) (map fst es) \<and> map_of es = map_of (snd t) \<and>
     mem_items t False = map (apsnd Inr) es \<and> mem_items t True = rev (map (apsnd Inr) es)"
proof (intro exI conjI)
  let ?ks = "sorted_list_of_set (set (map fst (snd t)))"
  let ?es = "map (\<lambda>k. (k, the (map_of (snd t) k))) ?ks"
  show "sorted_wrt (<) (map fst ?es)" by (simp add: comp_def)
  show "map_of ?es = map_of (snd t)"
    by (rule ext) (auto simp: map_of_map_restrict restrict_map_def map_of_eq_None_iff dest!: weak_map_of_SomeI,
      metis option.collapse map_of_eq_None_iff)
  show "mem_items t False = map (apsnd Inr) ?es" "mem_items t True = rev (map (apsnd Inr) ?es)"
    by (simp_all add: mem_items_def comp_def Let_def)
qed

lemma map_of_mem_delete: "map_of (mem_delete es k) = (map_of es)(k := None)"
  by (induction es) (auto simp: mem_delete_def)

lemma unat_digits:
  "u < 200 \<Longrightarrow> unat (48 + word_of_nat u :: byte) = 48 + u"
  "u < 200 \<Longrightarrow> unat (49 + word_of_nat u :: byte) = 49 + u"
  by (simp_all add: unat_word_ariths unat_of_nat)

lemma mem_ulid_law:
  assumes "mem_ulid_new u = (Inr i, u')"
  shows "length i = ulid_size \<and> 47 \<notin> set i \<and> mem_ulid u < i \<and> mem_ulid u' = i"
proof -
  from assms have u: "u < 100" "i = mem_ulid (Suc u)" "u' = Suc u"
    by (auto simp: mem_ulid_new_def split: if_splits)
  with unat_digits [of u] show ?thesis
    by (auto simp: mem_ulid_def ulid_size_def word_less_nat_alt word_unat_eq_iff)
qed

lemma mem_marshal_law:
  "mem_marshal_cb cb = Inr v \<Longrightarrow> sum_of (Clipboard_UnmarshalVT Clipboard_empty v) = Inr cb"
  "mem_marshal_lt m = Inr v \<Longrightarrow> sum_of (LockedTransaction_UnmarshalVT LockedTransaction_empty v) = Inr m"
  by (auto simp: mem_marshal_cb_def mem_marshal_lt_def sum_of_def representable_def Clipboard_MarshalVT_eq
      LockedTransaction_MarshalVT_eq Clipboard_UnmarshalVT_bytes LockedTransaction_UnmarshalVT_bytes
      length_Clipboard_bytes length_LockedTransaction_bytes split: if_splits)

theorem mem_laws: "lib_laws mem_lib mem_view"
proof -
  have "txn_laws mem_lib mem_view"
    unfolding txn_laws_def by (auto simp: mem_lib_def mem_view_def mem_items_law map_of_mem_delete finite_dom_map_of)
  moreover have "batch_laws mem_lib mem_view"
    unfolding batch_laws_def by (auto simp: mem_lib_def mem_view_def)
  moreover have "seq_laws mem_lib mem_view"
    unfolding seq_laws_def by (auto simp: mem_lib_def mem_view_def unat_of_nat)
  moreover have "ulid_laws mem_lib mem_view"
    unfolding ulid_laws_def by (auto simp: mem_lib_def mem_view_def dest: mem_ulid_law)
  moreover have "pb_laws mem_lib"
    unfolding pb_laws_def by (auto simp: mem_lib_def mem_marshal_law)
  moreover have "admin_laws mem_lib mem_view"
    unfolding admin_laws_def by (auto simp: mem_lib_def mem_view_def)
  ultimately show ?thesis by (simp add: lib_laws_def)
qed

subsection \<open>Steps of a copy into the database in memory\<close>

lemma Clipboard_SizeVT_le:
  "Clipboard_SizeVT cb \<le> 100 + length (cb_ExpireAt cb) + length (cb_MasterKeyNonce cb) + length (cb_KeyNonce cb) +
     length (cb_Iv cb) + length (cb_Checksum cb) + length (cb_unknownFields cb)"
  unfolding Clipboard_SizeVT_def
  using size_field_le(1) [of "cb_Sequence cb"] size_field_le(1) [of "cb_Size cb"] size_field_le(3) [of "cb_Compressed cb"]
    size_field_le(2) [of "cb_ExpireAt cb"] size_field_le(2) [of "cb_MasterKeyNonce cb"] size_field_le(2) [of "cb_KeyNonce cb"]
    size_field_le(2) [of "cb_Iv cb"] size_field_le(2) [of "cb_Checksum cb"]
  by linarith

lemma mem_put_chunk:
  assumes "db_entropy b < 100" "k = chunk_key version (mem_ulid (Suc (db_entropy b)))"
    and "bw_batchSize bw + estimateEntrySize k v \<le> db_valueLogFileSize b" "length (bw_WriteBatch bw) < 2"
  shows "put_chunk mem_lib version v (b, bw) = (Ok (), b\<lparr>db_entropy := Suc (db_entropy b)\<rparr>,
    bw\<lparr>bw_WriteBatch := (k, v) # bw_WriteBatch bw, bw_batchSize := bw_batchSize bw + estimateEntrySize k v\<rparr>)"
  using assms
  by (simp add: put_chunk_def mustNewULID_def mem_ulid_new_def Validate_def batch_SetEntry_def Let_def)

lemma mem_put_latest:
  assumes "cb_unknownFields cb = []" "Clipboard_SizeVT cb < 2 ^ 63"
    and "bw_batchSize bw + estimateEntrySize latestKey (Clipboard_bytes cb) \<le> db_valueLogFileSize b"
  shows "put_latest mem_lib cb ttl (b, bw) = (Ok (),
    b\<lparr>db_db := ((latestKey, Clipboard_bytes cb) # bw_WriteBatch bw @ fst (db_db b), snd (db_db b))\<rparr>,
    bw\<lparr>bw_WriteBatch := [], bw_batchSize := bw_batchSize bw + estimateEntrySize latestKey (Clipboard_bytes cb)\<rparr>)"
  using assms
  by (simp add: put_latest_def mem_marshal_cb_eq Validate_def batch_SetEntry_def batch_Flush_def Let_def)

lemma mem_Release: "map_of (fst (db_db b)) pendingTxnKey = None \<Longrightarrow> Release mem_lib (b, bw) = (Ok (), b, bw)"
  by (simp add: Release_def unlockVersion_def db_Update_def unlock_txn_def)

lemma mem_key_lengths [simp]:
  "length (chunk_key v (mem_ulid n)) = length (format_uint v) + 33" "length latestKey = 6"
  by (simp_all add: chunk_key_def chunkSuffix_def mem_ulid_def latestKey_def)

end
