(* ===== verification/Storage_Gc_Props.thy ===== *)
theory Storage_Gc_Props
  imports Storage_Gc Storage_Write Storage_Sample
begin

text \<open>
  What the collector guarantees: it never touches the current clipboard nor a version that is locked, it deletes no more
  entries than it was allowed to, and when its time suffices it removes everything that is stale. The registry of locked
  versions (\<open>lockVersion\<close>, \<open>unlockVersion\<close>) is characterised by the map it stores under \<^verbatim>\<open>PENDING\<close>.
\<close>

subsection \<open>The clipboard under the collector\<close>

lemma gc_keeps_special [simp]: "gc_keeps L m latestKey" "gc_keeps L m versionKey" "gc_keeps L m pendingTxnKey"
  by (simp_all add: gc_keeps_def kept_key_def)

lemma gc_keeps_index:
  "clipboard_of L m = Some (cb, cs) \<Longrightarrow> prefix (index_prefix (cb_Sequence cb)) k \<Longrightarrow> gc_keeps L m k"
  by (auto simp: gc_keeps_def kept_key_def index_of_def clipboard_of_def split: option.splits sum.splits)

lemma gc_keeps_locked: "locked_of L m (format_uint v) \<noteq> None \<Longrightarrow> gc_keeps L m (chunk_key v i)"
  by (simp add: gc_keeps_def locked_key_def)

lemma shrinks_clipboard: "shrinks (gc_keeps L m) m m' \<Longrightarrow> clipboard_of L m' = clipboard_of L m"
  by (rule clipboard_of_cong) (auto intro: shrinks_keep gc_keeps_index)

lemma shrinks_store_inv:
  assumes "shrinks (gc_keeps L m) m m'" and "store_inv L m n"
  shows "store_inv L m' n"
proof -
  have "k \<in> dom m" if "k \<in> dom m'" for k
    using that assms(1) unfolding shrinks_def by (metis domIff)
  with assms shrinks_keep [OF assms(1), of latestKey] show ?thesis
    unfolding store_inv_def by auto
qed

lemma discard_safe:
  assumes "lib_laws L V" and "db_inv L V b" and "discard L timeout reverse b keys = (r, b')"
  shows "db_inv L V b'" and "clipboard_of L (live V (db_db b')) = clipboard_of L (live V (db_db b))"
  using discard_spec [OF assms(1,3) refl refl] assms(2)
  by (auto simp: db_inv_def intro: shrinks_store_inv shrinks_clipboard)

lemma gc_again_keeps:
  assumes "lib_laws L V" and "gc_again L b = Some b'"
  shows "live V (db_db b') = live V (db_db b) \<and> nxt V (db_db b') = nxt V (db_db b) \<and> db_chunkSize b' = db_chunkSize b"
proof -
  have "lib_laws L V \<longrightarrow> live V (db_db b') = live V (db_db b) \<and> nxt V (db_db b') = nxt V (db_db b) \<and>
      db_chunkSize b' = db_chunkSize b"
  proof (rule gc_again.raw_induct [OF _ assms(2), of "\<lambda>L b b'. lib_laws L V \<longrightarrow>
      live V (db_db b') = live V (db_db b) \<and> nxt V (db_db b') = nxt V (db_db b) \<and> db_chunkSize b' = db_chunkSize b"])
    fix again L b b'
    assume IH: "\<And>L b b'. again L b = Some b' \<Longrightarrow> lib_laws L V \<longrightarrow>
        live V (db_db b') = live V (db_db b) \<and> nxt V (db_db b') = nxt V (db_db b) \<and> db_chunkSize b' = db_chunkSize b"
      and step: "(case runGC L b of (Ok _, b1) \<Rightarrow> again L b1 | (_, b1) \<Rightarrow> Some b1) = Some b'"
    obtain e d where g: "bg_value_log_gc L (db_db b) = (e, d)" by fastforce
    have "lib_laws L V \<Longrightarrow> live V d = live V (db_db b) \<and> nxt V d = nxt V (db_db b)"
      using lib_laws_admin(2) [OF _ g] by blast
    with step g IH [of L "b\<lparr>db_db := d\<rparr>" b'] show "lib_laws L V \<longrightarrow>
        live V (db_db b') = live V (db_db b) \<and> nxt V (db_db b') = nxt V (db_db b) \<and> db_chunkSize b' = db_chunkSize b"
      by (cases e) (auto simp: runGC_def)
  qed
  with assms(1) show ?thesis by blast
qed

lemma gc_tick_safe:
  assumes "lib_laws L V" and "db_inv L V b" and "gc_tick L timeout reverse b = (r, b')"
  shows "db_inv L V b'" and "clipboard_of L (live V (db_db b')) = clipboard_of L (live V (db_db b))"
proof -
  have "db_inv L V b' \<and> clipboard_of L (live V (db_db b')) = clipboard_of L (live V (db_db b))"
  proof (cases "gc_again L b")
    case None
    with assms show ?thesis by (simp add: gc_tick_def)
  next
    case (Some b1)
    note k = gc_again_keeps [OF assms(1) Some]
    then have "db_inv L V b1" using assms(2) by (simp add: db_inv_def)
    with discard_safe [OF assms(1) this, of timeout reverse "int discardKeyMaxNumber" r b'] assms(3) Some k
    show ?thesis by (simp add: gc_tick_def)
  qed
  then show "db_inv L V b'" "clipboard_of L (live V (db_db b')) = clipboard_of L (live V (db_db b))" by auto
qed

subsection \<open>The registry of locked versions\<close>

lemma store_lt_locked:
  assumes "lib_laws L V" and "store_lt L t m = (Ok u, t')"
  shows "base V t' = base V t" and "locked_of L (seen V t') = lt_Versions m"
  using assms(2) lib_laws_pb(2) [OF assms(1), of m]
  by (auto simp: store_lt_def locked_of_def split: sum.splits prod.splits dest!: lib_laws_set [OF assms(1)])

lemma db_Update_ok:
  assumes "lib_laws L V" and "db_Update L fn d = (Ok u, d')" and "\<And>t u t'. fn t = (Ok u, t') \<Longrightarrow> base V t' = base V t"
  obtains t where "fn (bg_txn L d) = (Ok (), t)" and "live V d' = seen V t"
proof -
  obtain r t where fn: "fn (bg_txn L d) = (r, t)" by fastforce
  with assms(2) obtain v where r: "r = Ok v" by (cases r) (auto simp: db_Update_def)
  obtain e d1 where c: "bg_commit L t d = (e, d1)" by fastforce
  have "e = None" "d' = d1" using assms(2) fn r c by (auto simp: db_Update_def)
  with lib_laws_commit [OF assms(1) c] assms(3) fn r lib_laws_txn(1) [OF assms(1)] have "live V d' = seen V t" by auto
  with fn r that show ?thesis by simp
qed

lemma lock_txn_locked:
  assumes "lib_laws L V" and "lock_txn L v t = (Ok u, t')"
  shows "base V t' = base V t" and "locked_of L (seen V t') = (locked_of L (seen V t))(format_uint v \<mapsto> [])"
proof -
  obtain m where m: "lt_Versions m = locked_of L (seen V t)"
    and st: "store_lt L t (m\<lparr>lt_Versions := (lt_Versions m)(format_uint v \<mapsto> [])\<rparr>) = (Ok u, t')"
  proof (cases "seen V t pendingTxnKey")
    case None
    with assms(2) lib_laws_txn(4) [OF assms(1), of t pendingTxnKey] show ?thesis
      by (intro that [of LockedTransaction_empty]) (simp_all add: lock_txn_def locked_of_def LockedTransaction_empty_def)
  next
    case (Some x)
    with assms(2) lib_laws_txn(4) [OF assms(1), of t pendingTxnKey] that show ?thesis
      by (auto simp: lock_txn_def Let_def and_then_Ok_iff locked_of_def)
  qed
  from store_lt_locked [OF assms(1) st] m
  show "base V t' = base V t" "locked_of L (seen V t') = (locked_of L (seen V t))(format_uint v \<mapsto> [])" by simp_all
qed

lemma unlock_txn_locked:
  assumes "lib_laws L V" and "unlock_txn L v t = (Ok u, t')"
  shows "base V t' = base V t" and "locked_of L (seen V t') = (locked_of L (seen V t))(format_uint v := None)"
proof -
  have "base V t' = base V t \<and> locked_of L (seen V t') = (locked_of L (seen V t))(format_uint v := None)"
  proof (cases "seen V t pendingTxnKey")
    case None
    with assms(2) lib_laws_txn(4) [OF assms(1), of t pendingTxnKey] show ?thesis
      by (auto simp: unlock_txn_def locked_of_def)
  next
    case (Some x)
    with assms(2) lib_laws_txn(4) [OF assms(1), of t pendingTxnKey] obtain m where
      "pb_unmarshal_lt L x = Inr m"
      "store_lt L t (m\<lparr>lt_Versions := (lt_Versions m)(format_uint v := None)\<rparr>) = (Ok u, t')"
      by (auto simp: unlock_txn_def and_then_Ok_iff)
    with store_lt_locked [OF assms(1) this(2)] Some show ?thesis by (simp add: locked_of_def)
  qed
  then show "base V t' = base V t" "locked_of L (seen V t') = (locked_of L (seen V t))(format_uint v := None)" by auto
qed

lemma lockVersion_locked:
  assumes "lib_laws L V" and "\<not> bw_once bw" and "lockVersion L (b, bw) = (Ok (), b', bw')"
  shows "locked_of L (live V (db_db b')) = (locked_of L (live V (db_db b)))(format_uint (bw_version bw) \<mapsto> [])"
proof -
  obtain d' where u: "db_Update L (lock_txn L (bw_version bw)) (db_db b) = (Ok (), d')" and b': "b' = b\<lparr>db_db := d'\<rparr>"
    using assms(2,3) by (auto simp: lockVersion_def split: prod.splits)
  from u obtain t where "lock_txn L (bw_version bw) (bg_txn L (db_db b)) = (Ok (), t)" "live V d' = seen V t"
    by (rule db_Update_ok [OF assms(1)]) (auto dest: lock_txn_locked(1) [OF assms(1)])
  with lock_txn_locked(2) [OF assms(1) this(1)] b' lib_laws_txn(2) [OF assms(1)] show ?thesis by simp
qed

lemma unlockVersion_locked:
  assumes "lib_laws L V" and "unlockVersion L (b, bw) = (Ok (), b', bw')"
  shows "locked_of L (live V (db_db b')) = (locked_of L (live V (db_db b)))(format_uint (bw_version bw) := None)"
proof -
  obtain d' where u: "db_Update L (unlock_txn L (bw_version bw)) (db_db b) = (Ok (), d')" and b': "b' = b\<lparr>db_db := d'\<rparr>"
    using assms(2) by (auto simp: unlockVersion_def split: prod.splits)
  from u obtain t where "unlock_txn L (bw_version bw) (bg_txn L (db_db b)) = (Ok (), t)" "live V d' = seen V t"
    by (rule db_Update_ok [OF assms(1)]) (auto dest: unlock_txn_locked(1) [OF assms(1)])
  with unlock_txn_locked(2) [OF assms(1) this(1)] b' lib_laws_txn(2) [OF assms(1)] show ?thesis by simp
qed

subsection \<open>A collection that runs to its end\<close>

lemma discard_loop_all:
  assumes "\<And>t k. fst (bg_delete L t k) = None" and "\<And>j. \<not> timeout j" and "int (deleted + length ks) \<le> keys"
  shows "\<exists>t'. discard_loop L timeout keys index locked ks i deleted t d =
    (Ok (deleted + length (filter (\<lambda>k. \<not> (kept_key index k \<or> locked_key locked k)) ks), t'), d)"
  using assms(3)
proof (induction ks arbitrary: i deleted t)
  case (Cons k ks)
  obtain t1 where "bg_delete L t k = (None, t1)" using assms(1) [of t k] by (metis prod.collapse)
  with Cons.IH [of deleted "Suc i" t] Cons.IH [of "Suc deleted" "Suc i" t1] Cons.prems assms(2) show ?case
    by auto
qed simp

definition decodable :: "('d, 't, 'w, 'u) lib \<Rightarrow> (bytes \<rightharpoonup> bytes) \<Rightarrow> bool" where
  "decodable L m \<longleftrightarrow> (\<forall>v. m latestKey = Some v \<longrightarrow> (\<exists>cb. pb_unmarshal_cb L v = Inr cb)) \<and>
     (\<forall>v. m pendingTxnKey = Some v \<longrightarrow> (\<exists>lt. pb_unmarshal_lt L v = Inr lt))"

lemma decodable_index: "decodable L m \<Longrightarrow> getIndex L (map_option Inr (m latestKey)) = Ok (index_of L m)"
  by (cases "m latestKey") (auto simp: decodable_def index_of_def)

lemma decodable_locked: "decodable L m \<Longrightarrow> getLockedTransaction L (map_option Inr (m pendingTxnKey)) = Ok (locked_of L m)"
  by (cases "m pendingTxnKey") (auto simp: decodable_def locked_of_def)

lemma discard_completes:
  assumes "lib_laws L V" and m: "m = live V (db_db b)" and "decodable L m"
    and "\<And>t k. fst (bg_delete L t k) = None" and "\<And>t d. fst (bg_commit L t d) = None"
    and "\<And>j. \<not> timeout j" and "int (card (dom m)) \<le> keys"
  shows "\<exists>b'. discard L timeout reverse b keys = (Ok (card {k \<in> dom m. \<not> gc_keeps L m k}), b')"
proof -
  let ?t = "bg_txn L (db_db b)" and ?keep = "gc_keeps L m"
  let ?ks = "map fst (bg_items L ?t reverse)"
  obtain es where es: "sorted_wrt (<) (map fst es)"
    "bg_items L ?t False = map (apsnd Inr) es" "bg_items L ?t True = rev (map (apsnd Inr) es)"
    using lib_laws_txn(5) [OF assms(1), of ?t] by auto
  have "?ks = (if reverse then rev (map fst es) else map fst es)" using es by (cases reverse) (simp_all add: rev_map)
  then have "distinct ?ks" using es(1) by (auto simp: strict_sorted_iff)
  then have "length (filter (\<lambda>k. \<not> ?keep k) ?ks) = card (set (filter (\<lambda>k. \<not> ?keep k) ?ks))"
    by (metis distinct_card distinct_filter)
  also have "set (filter (\<lambda>k. \<not> ?keep k) ?ks) = {k \<in> dom m. \<not> ?keep k}"
    using iterator_keys(1) [OF assms(1), of "db_db b" reverse] m by auto
  finally have n: "length (filter (\<lambda>k. \<not> ?keep k) ?ks) = card {k \<in> dom m. \<not> ?keep k}" .
  have len: "int (0 + length ?ks) \<le> keys"
    using iterator_keys(2) [OF assms(1), of "db_db b" reverse] assms(7) m by simp
  obtain t' where "discard_loop L timeout keys (index_of L m) (locked_of L m) ?ks 0 0 ?t (db_db b) =
      (Ok (card {k \<in> dom m. \<not> ?keep k}, t'), db_db b)"
    using discard_loop_all [where L = L and timeout = timeout and index = "index_of L m" and locked = "locked_of L m" and
        i = 0 and t = ?t and d = "db_db b", OF assms(4,6) len] n by (auto simp: gc_keeps_def)
  moreover obtain d' where "bg_commit L t' (db_db b) = (None, d')" using assms(5) by (metis prod.collapse)
  ultimately show ?thesis
    using decodable_index [OF assms(3)] decodable_locked [OF assms(3)] m
    by (simp add: discard_def Let_def get_item_eq [OF assms(1)])
qed

end
