(* ===== verification/Server_Props.thy ===== *)
theory Server_Props
  imports Server Storage_Sample
begin

text \<open>
  What the service guarantees: \<open>Copy\<close> replaces the clipboard exactly when it succeeds, \<open>Paste\<close> sends the clipboard or the reason
  why there is none, and what was copied is what is pasted.
\<close>

subsection \<open>Copy and Paste in terms of the stored clipboard\<close>

definition clip :: "('d, 't, 'w, 'u) lib \<Rightarrow> ('d, 't, 'w, 'u) view \<Rightarrow> ('d, 'u) webClipboardService \<Rightarrow>
    (Clipboard \<times> bytes list) option" where
  "clip L V s = clipboard_of L (live V (db_db (ws_db s)))"

definition svc_inv :: "('d, 't, 'w, 'u) lib \<Rightarrow> ('d, 't, 'w, 'u) view \<Rightarrow> ('d, 'u) webClipboardService \<Rightarrow> bool" where
  "svc_inv L V s \<longleftrightarrow> db_inv L V (ws_db s)"

definition effective_ttl :: "CopyStream_Info \<Rightarrow> 64 word" where
  "effective_ttl fi = (if ci_Ttl fi = 0 then DefaultTtl else ci_Ttl fi)"

definition info_header :: "CopyStream_Info \<Rightarrow> clip_header" where
  "info_header fi = \<lparr>h_compressed = ci_Compressed fi, h_masterKeyNonce = ci_MasterKeyNonce fi,
     h_keyNonce = ci_KeyNonce fi, h_iv = ci_Iv fi\<rparr>"

definition copy_msg :: "CopyStream_data \<Rightarrow> CopyStream" where
  "copy_msg d = \<lparr>cs_Data = Some d, cs_unknownFields = []\<rparr>"

definition copy_reader :: "CopyStream list \<Rightarrow> goerr \<Rightarrow> grpcReceiver Reader" where
  "copy_reader ms e = NewReader (newGrpcReceiver \<lparr>in_msgs = ms, in_end = e\<rparr>)"

lemma copy_reader_simps [simp]:
  "reader_inv (copy_reader ms e)" "copy_recv.rest (copy_reader ms e) = concat (copy_chunks ms)"
  "recv_fin (r_r (copy_reader ms e)) = copy_fin e ms" "recv_sum (r_r (copy_reader ms e)) = copy_sum [] ms"
  by (simp_all add: copy_reader_def copy_recv.rest_def NewReader_def newGrpcReceiver_def recv_chunks_def
      recv_fin_def recv_sum_def reader_inv_def)

lemma Copy_info:
  assumes "cs_Data m = Some (CS_Info fi)"
  shows "Copy L s \<lparr>in_msgs = m # ms, in_end = e\<rparr> ce =
    (case WriteBatch L copy_Read copy_Checksum (ws_db s) (copy_reader ms e) (effective_ttl fi) (info_header fi) of
       (Ok _, b, _) \<Rightarrow> (lift_err ce, s\<lparr>ws_db := b\<rparr>)
     | (Err e, b, _) \<Rightarrow> (Err (StatusError Internal (error_text e)), s\<lparr>ws_db := b\<rparr>)
     | (Panic p, b, _) \<Rightarrow> (Panic p, s\<lparr>ws_db := b\<rparr>)
     | (Loop, b, _) \<Rightarrow> (Loop, s\<lparr>ws_db := b\<rparr>))"
  using assms
  by (simp add: Copy_def CopyStream_GetInfo_def copy_reader_def effective_ttl_def info_header_def Let_def)

lemma Copy_no_info:
  assumes "\<And>fi. cs_Data m \<noteq> Some (CS_Info fi)"
  shows "Copy L s \<lparr>in_msgs = m # ms, in_end = e\<rparr> ce = (Panic NilDereference, s)"
  using assms by (auto simp: Copy_def CopyStream_GetInfo_def split: option.splits CopyStream_data.splits)

text \<open>The laws of \<open>WriteBatch\<close> for the reader of the service.\<close>

lemmas write_ok = copy_recv.reader.WriteBatch_ok [folded copy_Read_def copy_Checksum_def]
lemmas write_failed = copy_recv.reader.WriteBatch_failed [folded copy_Read_def copy_Checksum_def]
lemmas write_spec = copy_recv.reader.WriteBatch_spec [folded copy_Read_def copy_Checksum_def]

lemma Copy_ok_lemma:
  assumes "lib_laws L V" and "svc_inv L V s" and "cs_Data m = Some (CS_Info fi)" and "copy_fin e ms = EOF"
    and "alive (Some (effective_ttl fi))"
    and "Copy L s \<lparr>in_msgs = m # ms, in_end = e\<rparr> None = (Ok (), s')"
  shows "svc_inv L V s'" and "ws_config s' = ws_config s"
    and "\<exists>version. clip L V s' = Some
      (new_clipboard L version (effective_ttl fi) (info_header fi) (copy_sum [] ms) (length (concat (copy_chunks ms))),
       blocks (db_chunkSize (ws_db s)) (concat (copy_chunks ms)))"
proof -
  obtain res b r' where w: "WriteBatch L copy_Read copy_Checksum (ws_db s) (copy_reader ms e) (effective_ttl fi)
      (info_header fi) = (res, b, r')" by (metis prod_cases3)
  with assms(6) obtain n where res: "res = Ok n" and s': "s' = s\<lparr>ws_db := b\<rparr>"
    unfolding Copy_info [OF assms(3)] by (cases res) auto
  note ok = write_ok [OF assms(1) _ _ _ assms(5) w [unfolded res]]
  from ok assms(2,4) s' show "svc_inv L V s'" "ws_config s' = ws_config s"
    "\<exists>version. clip L V s' = Some
      (new_clipboard L version (effective_ttl fi) (info_header fi) (copy_sum [] ms) (length (concat (copy_chunks ms))),
       blocks (db_chunkSize (ws_db s)) (concat (copy_chunks ms)))"
    by (simp_all add: svc_inv_def clip_def)
qed

lemma Copy_failed_lemma:
  assumes "lib_laws L V" and "svc_inv L V s" and "Copy L s srv None = (r, s')" and "r \<noteq> Ok ()"
  shows "svc_inv L V s' \<and> clip L V s' = clip L V s"
proof (cases "in_msgs srv")
  case Nil
  with assms show ?thesis by (simp add: Copy_def)
next
  case (Cons m ms)
  then have srv: "srv = \<lparr>in_msgs = m # ms, in_end = in_end srv\<rparr>" by simp
  show ?thesis
  proof (cases "\<exists>fi. cs_Data m = Some (CS_Info fi)")
    case False
    with Copy_no_info [of m L s ms "in_end srv" None] assms(2,3) srv show ?thesis by simp
  next
    case True
    then obtain fi where fi: "cs_Data m = Some (CS_Info fi)" by blast
    obtain res b r' where w: "WriteBatch L copy_Read copy_Checksum (ws_db s) (copy_reader ms (in_end srv))
        (effective_ttl fi) (info_header fi) = (res, b, r')" by (metis prod_cases3)
    have s': "s' = s\<lparr>ws_db := b\<rparr>" and "\<And>n. res \<noteq> Ok n"
      using assms(3,4) w Copy_info [OF fi, of L s ms "in_end srv" None] srv by (cases res; auto)+
    with write_failed [OF assms(1) _ _ w] assms(2) show ?thesis by (simp add: svc_inv_def clip_def)
  qed
qed

lemma WriteBatch_run:
  assumes "lib_laws L V" and "svc_inv L V s"
    and "WriteBatch L copy_Read copy_Checksum (ws_db s) (copy_reader ms e) ttl h = (res, b, r')"
  shows "settles res" and "\<not> errors_is (copy_fin e ms) EOF \<Longrightarrow> res \<noteq> Ok n"
proof -
  obtain x d where sq: "bg_seq_next L (db_db (ws_db s)) = (x, d)" by fastforce
  have N: "0 < db_chunkSize (ws_db s)" using assms(2) by (simp add: svc_inv_def db_inv_def)
  have "settles res \<and> (\<not> errors_is (copy_fin e ms) EOF \<longrightarrow> res \<noteq> Ok n)"
  proof (cases x)
    case (Inl err)
    with sq assms(3) show ?thesis by (auto simp: WriteBatch_def)
  next
    case (Inr version)
    note w = write_spec [OF assms(1) _ N sq [unfolded Inr] refl assms(3)]
    from w(1) w(5) [of n] show ?thesis by simp
  qed
  then show "settles res" "\<not> errors_is (copy_fin e ms) EOF \<Longrightarrow> res \<noteq> Ok n" by auto
qed

lemma Copy_broken_lemma:
  assumes "lib_laws L V" and "svc_inv L V s" and "cs_Data m = Some (CS_Info fi)" and "\<not> errors_is (copy_fin e ms) EOF"
  shows "fst (Copy L s \<lparr>in_msgs = m # ms, in_end = e\<rparr> ce) \<noteq> Ok ()"
proof -
  obtain res b r' where w: "WriteBatch L copy_Read copy_Checksum (ws_db s) (copy_reader ms e) (effective_ttl fi)
      (info_header fi) = (res, b, r')" by (metis prod_cases3)
  show ?thesis
    unfolding Copy_info [OF assms(3)] w using WriteBatch_run(2) [OF assms(1,2) w assms(4)] by (cases res) auto
qed

lemma Copy_settles_lemma:
  assumes "lib_laws L V" and "svc_inv L V s" and "cs_Data m = Some (CS_Info fi)"
  shows "settles (fst (Copy L s \<lparr>in_msgs = m # ms, in_end = e\<rparr> ce))"
proof -
  obtain res b r' where w: "WriteBatch L copy_Read copy_Checksum (ws_db s) (copy_reader ms e) (effective_ttl fi)
      (info_header fi) = (res, b, r')" by (metis prod_cases3)
  show ?thesis
    unfolding Copy_info [OF assms(3)] w using WriteBatch_run(1) [OF assms(1,2) w] by (cases res) auto
qed

subsection \<open>Paste\<close>

definition effective_rate :: "PasteOption \<Rightarrow> 64 word" where
  "effective_rate opt = (if po_TransferRate opt = 0 then DefaultTransferRate else po_TransferRate opt)"

definition rate_ok :: "('d, 'u) webClipboardService \<Rightarrow> PasteOption \<Rightarrow> bool" where
  "rate_ok s opt \<longleftrightarrow> 0 < sint (effective_rate opt) \<and>
     sint (effective_rate opt) \<le> sint (sc_grpcMaxRecvSize (ws_config s))"

definition paste_writer :: "PasteOption \<Rightarrow> PastStream outbox \<Rightarrow> grpcSender Writer" where
  "paste_writer opt srv = NewWriter srv (replicate (nat (sint (effective_rate opt))) 0)"

lemma paste_writer_inv:
  "rate_ok s opt \<Longrightarrow> writer_inv (paste_writer opt srv)" "buffered (paste_writer opt srv) = []"
  "w_s (paste_writer opt srv) = srv"
  "length (w_t (paste_writer opt srv)) = nat (sint (effective_rate opt))"
  by (simp_all add: paste_writer_def rate_ok_def NewWriter_inv) (simp_all add: NewWriter_def)

lemma Paste_rate_ok:
  assumes "rate_ok s opt"
  shows "Paste L s opt srv =
    (case ReadBatch L paste_Write paste_Flush paste_Header (ws_db s) (paste_writer opt srv) of
       (Ok _, w) \<Rightarrow> (Ok (), w_s w)
     | (Err e, w) \<Rightarrow>
         if errors_is e ErrKeyNotFound then
           (let (e', srv1) = grpcSender_SendError (w_s w) (Wrapf (str ''no data to paste'') e) KeyNotFound
            in (lift_err e', srv1))
         else (Err (StatusError Internal (error_text e)), w_s w)
     | (Panic p, w) \<Rightarrow> (Panic p, w_s w)
     | (Loop, w) \<Rightarrow> (Loop, w_s w))"
  using assms
  by (simp add: Paste_def paste_writer_def rate_ok_def effective_rate_def [symmetric] Let_def not_less)

definition clip_info :: "Clipboard \<Rightarrow> PastStream" where
  "clip_info cb = past_info (cb_Compressed cb) (cb_Checksum cb \<noteq> []) (cb_MasterKeyNonce cb) (cb_KeyNonce cb) (cb_Iv cb)"

definition sum_msgs :: "bytes \<Rightarrow> PastStream list" where
  "sum_msgs c = (if c = [] then [] else [past_sum c])"

lemma Paste_ok_lemma:
  assumes "lib_laws L V" and "clip L V s = Some (cb, cs)" and "rate_ok s opt" and "outbox_reliable srv"
  shows "\<exists>srv'. Paste L s opt srv = (Ok (), srv') \<and>
    out_sent srv' = out_sent srv @ [clip_info cb] @ map past_chunk (cut (nat (sint (effective_rate opt))) (concat cs)) @
      sum_msgs (cb_Checksum cb)"
proof -
  obtain r w where rd: "ReadBatch L paste_Write paste_Flush paste_Header (ws_db s) (paste_writer opt srv) = (r, w)"
    by fastforce
  have "paste_out.read_post (paste_writer opt srv) cb cs (r, w)"
    using paste_out.ReadBatch_spec [OF assms(1) paste_writer_inv(1) [OF assms(3)], of "ws_db s" cb cs srv] assms(2) rd
    by (simp add: clip_def)
  then obtain n where "r = Ok n"
    "out_sent (w_s w) = out_sent srv @ [clip_info cb] @ map past_chunk (cut (nat (sint (effective_rate opt))) (concat cs)) @
      sum_msgs (cb_Checksum cb)"
    using assms(4) by (auto simp: paste_out.read_post_def paste_out.Hdr_of_def paste_writer_inv clip_info_def sum_msgs_def)
  with rd show ?thesis unfolding Paste_rate_ok [OF assms(3)] by auto
qed

lemma Paste_missing_lemma:
  assumes "lib_laws L V" and "live V (db_db (ws_db s)) latestKey = None" and "rate_ok s opt"
  shows "Paste L s opt srv =
    (let (e, srv1) = stream_Send srv (past_error (str ''no data to paste: key not found'') KeyNotFound) in (lift_err e, srv1))"
  unfolding Paste_rate_ok [OF assms(3)] paste_out.ReadBatch_missing [OF assms(1,2)]
  by (simp add: grpcSender_SendError_def paste_writer_inv str_def)

subsection \<open>A service on the database in memory\<close>

definition mem_service :: "(mem, mem_entropy) webClipboardService" where
  "mem_service =
     \<lparr>ws_db = \<lparr>db_db = ([], 0), db_entropy = 0,
        db_config = \<lparr>bc_Path = [], bc_InMemory = True, bc_GcInterval = MinGcInterval, bc_ValueSize = 0\<rparr>,
        db_valueLogFileSize = 500, db_chunkSize = 4\<rparr>,
      ws_config = defaultOption\<rparr>"

lemma mem_service_inv: "svc_inv mem_lib mem_view mem_service"
  by (simp add: svc_inv_def db_inv_def store_inv_def mem_service_def mem_view_def)

definition sample_info :: CopyStream_Info where
  "sample_info = \<lparr>ci_Ttl = 0, ci_Compressed = True, ci_MasterKeyNonce = [1], ci_KeyNonce = [2], ci_Iv = [3], ci_unknownFields = []\<rparr>"

definition sample_msgs :: "CopyStream list" where
  "sample_msgs = map copy_msg [CS_Chunk [10, 11, 12], CS_Chunk [13, 14], CS_Checksum [9, 9]]"

definition sample_copy :: "unit result \<times> (mem, mem_entropy) webClipboardService" where
  "sample_copy = Copy mem_lib mem_service \<lparr>in_msgs = copy_msg (CS_Info sample_info) # sample_msgs, in_end = EOF\<rparr> None"

text \<open>Two reads of four bytes and of the rest, and the copy as a whole.\<close>

definition sample_reader1 :: "grpcReceiver Reader" where
  "sample_reader1 =
     \<lparr>r_r = \<lparr>gr_srv = \<lparr>in_msgs = [copy_msg (CS_Checksum [9, 9])], in_end = EOF\<rparr>, gr_checksum = []\<rparr>,
      r_t = [13, 14], r_tLen = 1, r_tIndex = 1, r_pIndex = 3\<rparr>"

definition sample_reader2 :: "grpcReceiver Reader" where
  "sample_reader2 =
     \<lparr>r_r = \<lparr>gr_srv = \<lparr>in_msgs = [], in_end = EOF\<rparr>, gr_checksum = [9, 9]\<rparr>,
      r_t = [13, 14], r_tLen = 0, r_tIndex = 2, r_pIndex = 1\<rparr>"

lemmas reads_simps = copy_Read_def Reader_Read_def read_loop.simps read_copy_def grpcReceiver_Next_def go_copy_def
  CopyStream_GetChunk_def CopyStream_GetChecksum_def copy_msg_def

lemma sample_read1:
  "copy_Read (copy_reader sample_msgs EOF) [0, 0, 0, 0] = (Ok (4, None), [10, 11, 12, 13], sample_reader1)"
  by (simp add: copy_reader_def sample_msgs_def NewReader_def newGrpcReceiver_def sample_reader1_def reads_simps)

lemma sample_read2:
  "copy_Read sample_reader1 [10, 11, 12, 13] = (Ok (1, Some EOF), [14, 11, 12, 13], sample_reader2)"
  by (simp add: sample_reader1_def sample_reader2_def reads_simps)

definition sample_clipboard :: Clipboard where
  "sample_clipboard = new_clipboard mem_lib 0 DefaultTtl (info_header sample_info) [9, 9] 5"

lemma sample_put_latest:
  assumes "bw_batchSize bw = 123" "db_valueLogFileSize b = 500"
  shows "put_latest mem_lib sample_clipboard ttl (b, bw) = (Ok (),
    b\<lparr>db_db := ((latestKey, Clipboard_bytes sample_clipboard) # bw_WriteBatch bw @ fst (db_db b), snd (db_db b))\<rparr>,
    bw\<lparr>bw_WriteBatch := [],
       bw_batchSize := bw_batchSize bw + estimateEntrySize latestKey (Clipboard_bytes sample_clipboard)\<rparr>)"
proof -
  have "Clipboard_SizeVT sample_clipboard \<le> 105" "cb_unknownFields sample_clipboard = []"
    using Clipboard_SizeVT_le [of sample_clipboard]
    by (simp_all add: sample_clipboard_def new_clipboard_def info_header_def sample_info_def)
  with assms show ?thesis
    by (intro mem_put_latest)
       (simp_all add: estimateEntrySize_def maxHeaderSize_def crc32_Size_def length_Clipboard_bytes)
qed

definition sample_service :: "(mem, mem_entropy) webClipboardService" where
  "sample_service = mem_service\<lparr>ws_db := (ws_db mem_service)\<lparr>db_db :=
     ([(latestKey, Clipboard_bytes sample_clipboard), (chunk_key 0 (mem_ulid 2), [14]),
       (chunk_key 0 (mem_ulid 1), [10, 11, 12, 13])], 1), db_entropy := 2\<rparr>\<rparr>"

lemma sample_write:
  "WriteBatch mem_lib copy_Read copy_Checksum (ws_db mem_service) (copy_reader sample_msgs EOF) DefaultTtl
     (info_header sample_info) = (Ok 5, ws_db sample_service, sample_reader2)"
proof -
  have "replicate 4 (0 :: byte) = [0, 0, 0, 0]" "length (format_uint 0) = 1"
    by (simp_all add: numeral_eq_Suc format_uint_def format_nat.simps)
  then show ?thesis
    by (simp add: WriteBatch_def mem_service_def sample_service_def batch_loop.simps sample_read1 sample_read2
        mem_put_chunk estimateEntrySize_def maxHeaderSize_def crc32_Size_def NewBatchWriter_def copy_Checksum_def
        Reader_Checksum_def grpcReceiver_Checksum_def sample_reader2_def sample_put_latest mem_Release numeral_2_eq_2
        flip: sample_clipboard_def)
qed

lemma sample_copy_eq: "sample_copy = (Ok (), sample_service)"
proof -
  have "cs_Data (copy_msg (CS_Info sample_info)) = Some (CS_Info sample_info)" by (simp add: copy_msg_def)
  from Copy_info [OF this, of mem_lib mem_service sample_msgs EOF None] show ?thesis
    by (simp add: sample_copy_def sample_write effective_ttl_def sample_info_def [THEN arg_cong, of ci_Ttl] sample_service_def)
qed

lemma sample_msgs_simps:
  "copy_fin e sample_msgs = EOF" "copy_sum c sample_msgs = [9, 9]" "copy_chunks sample_msgs = [[10, 11, 12], [13, 14]]"
  by (simp_all add: sample_msgs_def copy_msg_def CopyStream_GetChunk_def)

lemma sample_ttl: "alive (Some (effective_ttl sample_info))"
  by code_simp

definition sample_option :: PasteOption where
  "sample_option = \<lparr>po_TransferRate = 2, po_unknownFields = []\<rparr>"

lemma sample_rate: "rate_ok sample_service sample_option" "rate_ok mem_service sample_option"
  by (simp_all add: rate_ok_def effective_rate_def sample_option_def sample_service_def mem_service_def defaultOption_def
      DefaultGrpcMaxRecvSize_def push_bit_eq_mult)

lemma sample_info_msg: "cs_Data (copy_msg (CS_Info sample_info)) = Some (CS_Info sample_info)"
  by (simp add: copy_msg_def)

lemma sample_copy_run:
  "Copy mem_lib mem_service \<lparr>in_msgs = copy_msg (CS_Info sample_info) # sample_msgs, in_end = EOF\<rparr> None = (Ok (), sample_service)"
  using sample_copy_eq by (simp add: sample_copy_def)

lemma sample_service_inv: "svc_inv mem_lib mem_view sample_service"
  by (rule Copy_ok_lemma(1) [OF mem_laws mem_service_inv sample_info_msg sample_msgs_simps(1) sample_ttl sample_copy_run])

text \<open>A copy whose connection is lost after one chunk.\<close>

definition broken_stream :: "CopyStream inbox" where
  "broken_stream = \<lparr>in_msgs = [copy_msg (CS_Info sample_info), copy_msg (CS_Chunk [1, 2])], in_end = DeadlineExceeded\<rparr>"

lemma broken_copy: "fst (Copy mem_lib sample_service broken_stream None) \<noteq> Ok ()"
  unfolding broken_stream_def
  by (rule Copy_broken_lemma [OF mem_laws sample_service_inv sample_info_msg]) (simp add: copy_msg_def)

subsection \<open>The service as its users see it\<close>

text \<open>
  C5: What is copied is what is pasted. After a copy that succeeded, a paste over a stream that accepts its messages
  succeeds and sends the header of the copy, then exactly the bytes that were copied, cut into chunks of the size
  the client asked for, then the checksum if the client sent one.
\<close>

theorem copy_then_paste:
  assumes "lib_laws L V" and "svc_inv L V s"
    and "cs_Data m = Some (CS_Info fi)" and "copy_fin e ms = EOF" and "alive (Some (effective_ttl fi))"
    and "Copy L s \<lparr>in_msgs = m # ms, in_end = e\<rparr> None = (Ok (), s')"
    and "rate_ok s' opt" and "outbox_reliable srv"
  shows "\<exists>srv'. Paste L s' opt srv = (Ok (), srv') \<and>
    out_sent srv' = out_sent srv @
      [past_info (ci_Compressed fi) (copy_sum [] ms \<noteq> []) (ci_MasterKeyNonce fi) (ci_KeyNonce fi) (ci_Iv fi)] @
      map past_chunk (cut (nat (sint (effective_rate opt))) (concat (copy_chunks ms))) @ sum_msgs (copy_sum [] ms)"
proof -
  have N: "0 < db_chunkSize (ws_db s)" using assms(2) by (simp add: svc_inv_def db_inv_def)
  obtain version where c: "clip L V s' = Some
      (new_clipboard L version (effective_ttl fi) (info_header fi) (copy_sum [] ms) (length (concat (copy_chunks ms))),
       blocks (db_chunkSize (ws_db s)) (concat (copy_chunks ms)))"
    using Copy_ok_lemma(3) [OF assms(1-6)] by blast
  from Paste_ok_lemma [OF assms(1) c assms(7,8)] N show ?thesis
    by (simp add: clip_info_def new_clipboard_def info_header_def)
qed

theorem copy_then_paste_witness:
  "\<exists>srv'. Paste mem_lib sample_service sample_option open_outbox = (Ok (), srv') \<and>
     out_sent srv' = [past_info True True [1] [2] [3]] @ map past_chunk [[10, 11], [12, 13], [14]] @ [past_sum [9, 9]]"
  using copy_then_paste [OF mem_laws mem_service_inv sample_info_msg sample_msgs_simps(1) sample_ttl sample_copy_run
      sample_rate(1) outbox_reliable_open]
  by (simp add: sample_msgs_simps sample_info_def sum_msgs_def effective_rate_def sample_option_def cut.simps)







end
