(* ===== verification/Collector.thy ===== *)
theory Collector
  imports Storage_Gc_Props Server_Props
begin

text \<open>
  The collector next to the service: its guarantees for the clipboard and for locked versions, when it removes
  everything that is stale, and the one interleaving with a copy that the locks do not prevent.
\<close>

subsection \<open>Concrete runs\<close>

lemma some_order_single: "some_order \<lparr>lt_Versions = [k \<mapsto> v], lt_unknownFields = u\<rparr> = [(k, v)]"
proof -
  let ?P = "\<lambda>xs. map_of xs = [k \<mapsto> v] \<and> distinct (map fst xs)"
  have "?P [(k, v)]" by (simp add: fun_eq_iff)
  then have P: "?P (some_order \<lparr>lt_Versions = [k \<mapsto> v], lt_unknownFields = u\<rparr>)"
    unfolding some_order_def by (metis (mono_tags, lifting) LockedTransaction.select_convs(1) someI)
  have "xs = [(k, v)]" if "?P xs" for xs
  proof -
    have s: "set (map fst xs) = {k}" using that by (metis dom_map_of_conv_image_fst dom_eq_singleton_conv list.set_map)
    then have "length xs = 1" using distinct_card [of "map fst xs"] that by simp
    then obtain y where "xs = [y]" by (cases xs) auto
    with that s show ?thesis by (cases y) (auto dest: fun_cong [of _ _ k])
  qed
  with P show ?thesis by blast
qed

lemma mem_marshal_single:
  assumes "length k < 100"
  shows "\<exists>d. mem_marshal_lt \<lparr>lt_Versions = [k \<mapsto> []], lt_unknownFields = []\<rparr> = Inr d"
  using assms sov_le [of 0] sov_le [of "word_of_nat (length k)"]
    sov_le [of "word_of_nat (1 + length k + sov (word_of_nat (length k)) + (1 + sov 0))"]
  by (auto simp: mem_marshal_lt_def representable_def some_order_single LockedTransaction_SizeVT_def sum_of_def
      LockedTransaction_MarshalVT_eq fun_eq_iff)

lemma mem_lock:
  "\<exists>d. lockVersion mem_lib (ws_db mem_service, NewBatchWriter mem_lib (ws_db mem_service) 0) =
     (Ok (), (ws_db mem_service)\<lparr>db_db := ([(pendingTxnKey, d)], 0)\<rparr>,
      (NewBatchWriter mem_lib (ws_db mem_service) 0)\<lparr>bw_once := True\<rparr>)"
proof -
  obtain d where "mem_marshal_lt \<lparr>lt_Versions = [format_uint 0 \<mapsto> []], lt_unknownFields = []\<rparr> = Inr d"
    using mem_marshal_single [of "format_uint 0"] by (auto simp: format_uint_def format_nat.simps)
  then show ?thesis
    by (intro exI [of _ d]) (simp add: lockVersion_def NewBatchWriter_def mem_service_def db_Update_def lock_txn_def
        store_lt_def LockedTransaction_empty_def mem_lib_def)
qed

lemma sample_db_inv: "db_inv mem_lib mem_view (ws_db sample_service)"
  using sample_service_inv by (simp add: svc_inv_def)

lemma sample_db_small: "card (dom (live mem_view (db_db (ws_db sample_service)))) \<le> 3"
proof -
  have "dom (live mem_view (db_db (ws_db sample_service))) \<subseteq> set (map fst (fst (db_db (ws_db sample_service))))"
    by (auto simp: mem_view_def dom_map_of_conv_image_fst)
  from card_mono [OF _ this] show ?thesis
    using card_length [of "map fst (fst (db_db (ws_db sample_service)))"] by (simp add: sample_service_def)
qed

lemma sample_decodable: "decodable mem_lib (live mem_view (db_db (ws_db sample_service)))"
  using sample_db_inv by (auto simp: decodable_def db_inv_def store_inv_def mem_view_def sample_service_def)

subsection \<open>The guarantees\<close>



text \<open>
  C13: A locked version is safe. Once \<open>lockVersion\<close> has succeeded, the collector keeps every chunk of that version and the
  lock itself, although the version is not the current clipboard yet.
\<close>

theorem locked_version_survives:
  assumes "lib_laws L V" and "\<not> bw_once bw" and "lockVersion L (b, bw) = (Ok (), b1, bw1)"
    and "discard L timeout reverse b1 keys = (r, b2)"
  shows "live V (db_db b2) (chunk_key (bw_version bw) i) = live V (db_db b1) (chunk_key (bw_version bw) i) \<and>
    locked_of L (live V (db_db b2)) (format_uint (bw_version bw)) = Some []"
proof -
  let ?m1 = "live V (db_db b1)" and ?m2 = "live V (db_db b2)"
  have l: "locked_of L ?m1 (format_uint (bw_version bw)) = Some []"
    using lockVersion_locked [OF assms(1-3)] by simp
  have s: "shrinks (gc_keeps L ?m1) ?m1 ?m2" using discard_spec [OF assms(1,4) refl refl] by blast
  have "locked_of L ?m2 = locked_of L ?m1"
    using shrinks_keep [OF s, of pendingTxnKey] by (simp add: locked_of_def)
  moreover have "?m2 (chunk_key (bw_version bw) i) = ?m1 (chunk_key (bw_version bw) i)"
    by (rule shrinks_keep [OF s gc_keeps_locked]) (simp add: l)
  ultimately show ?thesis using l by simp
qed

theorem locked_version_survives_witness:
  "\<exists>b1 bw1 r b2. lockVersion mem_lib (ws_db mem_service, NewBatchWriter mem_lib (ws_db mem_service) 0) = (Ok (), b1, bw1) \<and>
     discard mem_lib (\<lambda>i. False) False b1 20 = (r, b2) \<and>
     locked_of mem_lib (live mem_view (db_db b2)) (format_uint 0) = Some []"
proof -
  obtain d where k: "lockVersion mem_lib (ws_db mem_service, NewBatchWriter mem_lib (ws_db mem_service) 0) =
      (Ok (), (ws_db mem_service)\<lparr>db_db := ([(pendingTxnKey, d)], 0)\<rparr>,
       (NewBatchWriter mem_lib (ws_db mem_service) 0)\<lparr>bw_once := True\<rparr>)" using mem_lock by blast
  obtain r b2 where g: "discard mem_lib (\<lambda>i. False) False ((ws_db mem_service)\<lparr>db_db := ([(pendingTxnKey, d)], 0)\<rparr>) 20 = (r, b2)"
    by fastforce
  from locked_version_survives [OF mem_laws _ k g] k g show ?thesis by (auto simp: NewBatchWriter_def)
qed





subsection \<open>A collection in the middle of a copy\<close>

text \<open>
  \<open>WriteBatch\<close> and \<open>discard\<close> both hold the read lock of the database, so a collection may run between two chunks of a copy. \<open>lockVersion\<close>
  is called only when the batch grows beyond \<open>valueLogFileSize\<close>, but Badger's write batch may commit earlier, and what it committed
  is then neither the current clipboard nor locked.
\<close>

lemma mem_put_chunk_full:
  assumes "db_entropy b < 100" "k = chunk_key version (mem_ulid (Suc (db_entropy b)))"
    and "bw_batchSize bw + estimateEntrySize k v \<le> db_valueLogFileSize b" "\<not> length (bw_WriteBatch bw) < 2"
  shows "put_chunk mem_lib version v (b, bw) =
    (Ok (), b\<lparr>db_entropy := Suc (db_entropy b), db_db := (bw_WriteBatch bw @ fst (db_db b), snd (db_db b))\<rparr>,
     bw\<lparr>bw_WriteBatch := [(k, v)], bw_batchSize := bw_batchSize bw + estimateEntrySize k v\<rparr>)"
  using assms
  by (simp add: put_chunk_def mustNewULID_def mem_ulid_new_def Validate_def batch_SetEntry_def Let_def)

lemma discard_only_db:
  assumes "discard L timeout reverse b keys = (r, b')"
  shows "b' = b\<lparr>db_db := db_db b'\<rparr>"
proof -
  let ?P = "\<lambda>x. \<exists>d. x = b\<lparr>db_db := d\<rparr>"
  have "?P b" by (metis BadgerDB.surjective BadgerDB.update_convs(1))
  then have "?P (snd (discard L timeout reverse b keys))"
    unfolding discard_def Let_def
    by (intro and_then_inv [where P = ?P]) (auto split: prod.splits result.splits intro!: and_then_inv [where P = ?P])
  with assms show ?thesis by auto
qed

definition race_db :: "(mem, mem_entropy) BadgerDB" where
  "race_db = (ws_db mem_service)\<lparr>db_db := ([], 1)\<rparr>"

definition race_key :: "nat \<Rightarrow> bytes" where
  "race_key n = chunk_key 0 (mem_ulid n)"

definition race_clipboard :: Clipboard where
  "race_clipboard = new_clipboard mem_lib 0 DefaultTtl (info_header sample_info) [] 3"

definition race_put :: "nat \<Rightarrow> (bytes \<times> bytes) list \<Rightarrow> mem_batch \<Rightarrow> (mem, mem_entropy, mem_batch) batch_state" where
  "race_put n es w = (race_db\<lparr>db_entropy := n, db_db := (es, 1)\<rparr>,
     \<lparr>bw_WriteBatch = w, bw_batchSize = n * 60, bw_version = 0, bw_once = False\<rparr>)"

lemma format_uint_0 [simp]: "length (format_uint 0) = 1"
  by (simp add: format_uint_def format_nat.simps)

lemma race_puts:
  "(race_db, NewBatchWriter mem_lib race_db 0) = race_put 0 [] []"
  "put_chunk mem_lib 0 [1] (race_put 0 [] []) = (Ok (), race_put 1 [] [(race_key 1, [1])])"
  "put_chunk mem_lib 0 [2] (race_put 1 [] [(race_key 1, [1])]) =
     (Ok (), race_put 2 [] [(race_key 2, [2]), (race_key 1, [1])])"
  "put_chunk mem_lib 0 [3] (race_put 2 [] [(race_key 2, [2]), (race_key 1, [1])]) =
     (Ok (), race_put 3 [(race_key 2, [2]), (race_key 1, [1])] [(race_key 3, [3])])"
  by (simp_all add: race_put_def race_db_def race_key_def mem_service_def NewBatchWriter_def mem_put_chunk mem_put_chunk_full
      estimateEntrySize_def maxHeaderSize_def crc32_Size_def numeral_2_eq_2 numeral_3_eq_3)

lemma race_discard:
  assumes "b = fst (race_put 3 [(race_key 2, [2]), (race_key 1, [1])] w)"
  shows "\<exists>n. discard mem_lib (\<lambda>i. False) False b (int discardKeyMaxNumber) = (Ok n, fst (race_put 3 [] w))"
proof -
  let ?m = "live mem_view (db_db b)"
  have m: "?m = map_of [(race_key 2, [2]), (race_key 1, [1])]" using assms by (simp add: race_put_def mem_view_def)
  then have dom: "dom ?m = {race_key 2, race_key 1}" by (auto simp: dom_def)
  have special: "?m latestKey = None" "?m pendingTxnKey = None" by (simp_all add: m race_key_def)
  have gone: "\<not> gc_keeps mem_lib ?m (race_key n)" for n
    using special by (simp add: gc_keeps_def index_of_def locked_of_def kept_key_def locked_key_def race_key_def)
  have dec: "decodable mem_lib ?m" using special by (simp add: decodable_def)
  have "card (dom ?m) \<le> 2" unfolding dom by (metis card_length length_Cons list.set(1,2) list.size(3) numeral_2_eq_2)
  then have le: "int (card (dom ?m)) \<le> int discardKeyMaxNumber" by (simp add: discardKeyMaxNumber_def)
  obtain n b' where d: "discard mem_lib (\<lambda>i. False) False b (int discardKeyMaxNumber) = (Ok n, b')"
    using discard_completes [where timeout = "\<lambda>i. False" and reverse = False, OF mem_laws refl dec _ _ _ le] by auto
  note spec = discard_spec [OF mem_laws d refl refl]
  have keep: "gc_keeps mem_lib ?m k" if "k \<in> dom (live mem_view (db_db b'))" for k using spec le that by blast
  have sub: "k \<in> dom ?m" if "k \<in> dom (live mem_view (db_db b'))" for k
    using spec that unfolding shrinks_def by (metis domIff)
  have "k \<notin> dom (live mem_view (db_db b'))" for k
  proof
    assume k: "k \<in> dom (live mem_view (db_db b'))"
    from sub [OF k] dom obtain j where "k = race_key j" by auto
    with keep [OF k] gone show False by simp
  qed
  then have "dom (live mem_view (db_db b')) = {}" by blast
  moreover have "snd (db_db b') = 1" using spec assms by (simp add: mem_view_def race_put_def)
  ultimately have "db_db b' = ([], 1)" by (cases "db_db b'") (simp add: mem_view_def dom_map_of_conv_image_fst)
  with discard_only_db [OF d] assms have "b' = fst (race_put 3 [] w)" by (simp add: race_put_def)
  with d show ?thesis by blast
qed

text \<open>
  C16: A collection that runs while a copy is under way can remove part of its data. Here three chunks are written, the write batch
  commits the first two early, a collection runs, and the copy ends with success: the clipboard it installs announces three
  bytes and holds one.
\<close>

theorem gc_during_copy_loses_data:
  "\<exists>st1 st2 b3 bw3 n b4 st5 cs.
     put_chunk mem_lib 0 [1] (race_db, NewBatchWriter mem_lib race_db 0) = (Ok (), st1) \<and>
     put_chunk mem_lib 0 [2] st1 = (Ok (), st2) \<and> put_chunk mem_lib 0 [3] st2 = (Ok (), b3, bw3) \<and>
     discard mem_lib (\<lambda>i. False) False b3 (int discardKeyMaxNumber) = (Ok n, b4) \<and>
     put_latest mem_lib race_clipboard DefaultTtl (b4, bw3) = (Ok (), st5) \<and>
     clipboard_of mem_lib (live mem_view (db_db (fst st5))) = Some (race_clipboard, cs) \<and>
     cb_Size race_clipboard = 3 \<and> concat cs = [3]"
proof -
  let ?es = "[(race_key 2, [2]), (race_key 1, [1])] :: (bytes \<times> bytes) list" and ?w = "[(race_key 3, [3])] :: mem_batch"
  obtain n where d: "discard mem_lib (\<lambda>i. False) False (fst (race_put 3 ?es ?w)) (int discardKeyMaxNumber) =
      (Ok n, fst (race_put 3 [] ?w))" using race_discard by blast
  have cb: "cb_unknownFields race_clipboard = []" "Clipboard_SizeVT race_clipboard \<le> 103" "cb_Sequence race_clipboard = 0"
    "cb_Size race_clipboard = 3"
    using Clipboard_SizeVT_le [of race_clipboard]
    by (simp_all add: race_clipboard_def new_clipboard_def info_header_def sample_info_def)
  obtain st5 where p: "put_latest mem_lib race_clipboard DefaultTtl (race_put 3 [] ?w) = (Ok (), st5)"
    and m: "fst (db_db (fst st5)) = [(latestKey, Clipboard_bytes race_clipboard), (race_key 3, [3])]"
    using cb mem_put_latest [of race_clipboard "snd (race_put 3 [] ?w)" "fst (race_put 3 [] ?w)" DefaultTtl]
    by (auto simp: race_put_def race_db_def mem_service_def estimateEntrySize_def maxHeaderSize_def crc32_Size_def
        length_Clipboard_bytes)
  have "{k \<in> dom (map_of (fst (db_db (fst st5)))). prefix (index_prefix 0) k \<and> suffix chunkSuffix k} = {race_key 3}"
    unfolding m by (auto simp: race_key_def)
  then have "stored_chunks (live mem_view (db_db (fst st5))) 0 = [[3]]"
    using m by (simp add: stored_chunks_def mem_view_def race_key_def)
  then have c: "clipboard_of mem_lib (live mem_view (db_db (fst st5))) = Some (race_clipboard, [[3]])"
    using m cb mem_unmarshal_cb_eq [of race_clipboard] by (simp add: clipboard_of_def mem_view_def)
  have put3: "put_chunk mem_lib 0 [3] (race_put 2 [] ?es) = (Ok (), fst (race_put 3 ?es ?w), snd (race_put 3 [] ?w))"
    using race_puts(4) by (simp add: race_put_def)
  have latest: "put_latest mem_lib race_clipboard DefaultTtl (fst (race_put 3 [] ?w), snd (race_put 3 [] ?w)) = (Ok (), st5)"
    using p by simp
  show ?thesis
    unfolding race_puts(1) by (intro exI conjI, rule race_puts(2), rule race_puts(3), rule put3, rule d, rule latest, rule c, rule cb(4)) simp
qed

end
