(* ===== verification/Service.thy ===== *)
theory Service
  imports Collector
begin

text \<open>
  The service as a state machine. Its events are the calls that change the state (\<open>Copy\<close>, \<open>Clear\<close>), a tick of the collector, and
  the expiry of the clipboard. The specification is a register that holds at most one content: the theorems below show that
  every run of the service is a run of the register, and that \<open>Paste\<close> answers with what the register holds.
\<close>

subsection \<open>Runs and simulations\<close>

inductive run :: "('s \<Rightarrow> 'e \<Rightarrow> 's \<Rightarrow> bool) \<Rightarrow> 's \<Rightarrow> 'e list \<Rightarrow> 's \<Rightarrow> bool" for step where
  run_nil: "run step s [] s"
| run_snoc: "run step s es s' \<Longrightarrow> step s' e s'' \<Longrightarrow> run step s (es @ [e]) s''"

text \<open>
  The contract between an implementation and its specification: on states that satisfy the invariant, each step keeps
  the invariant and is a step of the specification on the abstract states.
\<close>

locale simulation =
  fixes cstep :: "'c \<Rightarrow> 'e \<Rightarrow> 'c \<Rightarrow> bool"
    and astep :: "'a \<Rightarrow> 'e \<Rightarrow> 'a \<Rightarrow> bool"
    and inv :: "'c \<Rightarrow> bool"
    and abs :: "'c \<Rightarrow> 'a"
  assumes step_inv: "inv s \<Longrightarrow> cstep s e s' \<Longrightarrow> inv s'"
    and step_sim: "inv s \<Longrightarrow> cstep s e s' \<Longrightarrow> astep (abs s) e (abs s')"
begin

lemma run_simulated:
  assumes "run cstep s es s'" and "inv s"
  shows "inv s' \<and> run astep (abs s) es (abs s')"
  using assms by (induction rule: run.induct) (auto intro: run.intros step_inv step_sim)

end

subsection \<open>The events and the register\<close>

datatype event =
    ECopy "CopyStream inbox" "goerr option" "unit result"   \<comment> \<open>stream, outcome of \<^verbatim>\<open>SendAndClose\<close>, result\<close>
  | EClear "goerr option"                                   \<comment> \<open>state of the context\<close>
  | ECollect "nat \<Rightarrow> bool" bool                             \<comment> \<open>clock, direction\<close>
  | EExpire

text \<open>
  The requests considered: gRPC reports the end of a stream as \<^verbatim>\<open>io.EOF\<close> itself, and the time to live, if one is given, is at
  least a second.
\<close>

definition request_ok :: "CopyStream inbox \<Rightarrow> bool" where
  "request_ok srv \<longleftrightarrow> (errors_is (in_end srv) EOF \<longrightarrow> in_end srv = EOF) \<and>
     (case in_msgs srv of
        [] \<Rightarrow> True
      | m # ms \<Rightarrow> (case cs_Data m of Some (CS_Info fi) \<Rightarrow> alive (Some (effective_ttl fi)) | _ \<Rightarrow> True))"

text \<open>Expiry: Badger stops showing the entry \<^verbatim>\<open>LATEST\<close>.\<close>

definition expires :: "('d, 't, 'w, 'u) view \<Rightarrow> 'd \<Rightarrow> 'd \<Rightarrow> bool" where
  "expires V d d' \<longleftrightarrow> live V d' = (live V d)(latestKey := None) \<and> nxt V d' = nxt V d"

inductive svc_step ::
  "('d, 't, 'w, 'u) lib \<Rightarrow> ('d, 't, 'w, 'u) view \<Rightarrow> ('d, 'u) webClipboardService \<Rightarrow> event \<Rightarrow>
     ('d, 'u) webClipboardService \<Rightarrow> bool" for L V where
  step_copy: "request_ok srv \<Longrightarrow> Copy L s srv ce = (r, s') \<Longrightarrow> svc_step L V s (ECopy srv ce r) s'"
| step_clear: "Clear L None s = (Ok (), s') \<Longrightarrow> svc_step L V s (EClear None) s'"
| step_cancelled: "Clear L (Some e) s = (r, s') \<Longrightarrow> svc_step L V s (EClear (Some e)) s'"
| step_collect: "gc_tick L timeout reverse (ws_db s) = (r, b) \<Longrightarrow>
    svc_step L V s (ECollect timeout reverse) (s\<lparr>ws_db := b\<rparr>)"
| step_expire: "expires V (db_db (ws_db s)) d \<Longrightarrow>
    svc_step L V s EExpire (s\<lparr>ws_db := (ws_db s)\<lparr>db_db := d\<rparr>\<rparr>)"

inductive_cases svc_stepE: "svc_step L V s e s'"

lemmas svc_step_cases = svc_stepE [consumes 1, case_names copy clear cancelled collect expire]

record content =
  c_compressed :: bool
  c_masterKeyNonce :: bytes
  c_keyNonce :: bytes
  c_iv :: bytes
  c_checksum :: bytes
  c_data :: bytes

definition content_of :: "Clipboard \<times> bytes list \<Rightarrow> content" where
  "content_of x = (let (cb, cs) = x in
     \<lparr>c_compressed = cb_Compressed cb, c_masterKeyNonce = cb_MasterKeyNonce cb, c_keyNonce = cb_KeyNonce cb,
      c_iv = cb_Iv cb, c_checksum = cb_Checksum cb, c_data = concat cs\<rparr>)"

definition held_content :: "('d, 't, 'w, 'u) lib \<Rightarrow> ('d, 't, 'w, 'u) view \<Rightarrow> ('d, 'u) webClipboardService \<Rightarrow> content option" where
  "held_content L V s = map_option content_of (clip L V s)"

text \<open>The content a stream of copy messages carries.\<close>

definition sent_content :: "CopyStream inbox \<Rightarrow> content option" where
  "sent_content srv =
     (case in_msgs srv of
        [] \<Rightarrow> None
      | m # ms \<Rightarrow>
          (case cs_Data m of
             Some (CS_Info fi) \<Rightarrow>
               if copy_fin (in_end srv) ms = EOF then
                 Some \<lparr>c_compressed = ci_Compressed fi, c_masterKeyNonce = ci_MasterKeyNonce fi, c_keyNonce = ci_KeyNonce fi,
                   c_iv = ci_Iv fi, c_checksum = copy_sum [] ms, c_data = concat (copy_chunks ms)\<rparr>
               else None
           | _ \<Rightarrow> None))"

text \<open>
  The register. A copy that reports success has stored what it was sent; one that reports a failure has stored nothing, unless
  the only thing that failed was the acknowledgement.
\<close>

inductive reg_step :: "content option \<Rightarrow> event \<Rightarrow> content option \<Rightarrow> bool" where
  reg_stored: "sent_content srv = Some c \<Longrightarrow> r = Ok () \<or> (\<exists>e. ce = Some e \<and> r = Err e) \<Longrightarrow> reg_step a (ECopy srv ce r) (Some c)"
| reg_rejected: "r \<noteq> Ok () \<Longrightarrow> reg_step a (ECopy srv ce r) a"
| reg_clear: "reg_step a (EClear None) None"
| reg_cancelled: "reg_step a (EClear (Some e)) a"
| reg_collect: "reg_step a (ECollect timeout reverse) a"
| reg_expire: "reg_step a EExpire None"

subsection \<open>Each event\<close>

lemma Copy_close:
  "Copy L s srv ce = (let (r, s') = Copy L s srv None in (if r = Ok () then lift_err ce else r, s'))"
proof (cases "in_msgs srv")
  case Nil
  then show ?thesis by (simp add: Copy_def)
next
  case (Cons m ms)
  then have srv: "srv = \<lparr>in_msgs = m # ms, in_end = in_end srv\<rparr>" by simp
  show ?thesis
  proof (cases "\<exists>fi. cs_Data m = Some (CS_Info fi)")
    case False
    then show ?thesis by (subst (1 2) srv) (simp add: Copy_no_info)
  next
    case True
    then obtain fi where fi: "cs_Data m = Some (CS_Info fi)" by blast
    show ?thesis
      by (subst (1 2) srv) (auto simp: Copy_info [OF fi] split: prod.splits result.splits)
  qed
qed

lemma Copy_ok_stored:
  assumes "lib_laws L V" and "svc_inv L V s" and "request_ok srv" and "Copy L s srv None = (Ok (), s')"
  shows "svc_inv L V s'" and "held_content L V s' = sent_content srv" and "sent_content srv \<noteq> None"
proof -
  obtain m ms e where srv: "srv = \<lparr>in_msgs = m # ms, in_end = e\<rparr>"
    using assms(4) by (cases srv; cases "in_msgs srv") (auto simp: Copy_def)
  note cp = assms(4) [unfolded srv]
  obtain fi where fi: "cs_Data m = Some (CS_Info fi)"
    using cp Copy_no_info [of m L s ms e None] by force
  have "errors_is (copy_fin e ms) EOF"
    using Copy_broken_lemma [OF assms(1,2) fi, of e ms None] cp by fastforce
  moreover have "copy_fin e ms \<in> {e, EOF, err_info_header}"
    by (induction ms) (auto split: option.splits CopyStream_data.splits)
  ultimately have fin: "copy_fin e ms = EOF"
    using assms(3) by (auto simp: request_ok_def err_info_header_def srv)
  have ttl: "alive (Some (effective_ttl fi))" using assms(3) fi by (simp add: request_ok_def srv)
  have N: "0 < db_chunkSize (ws_db s)" using assms(2) by (simp add: svc_inv_def db_inv_def)
  note ok = Copy_ok_lemma [OF assms(1,2) fi fin ttl cp]
  show "svc_inv L V s'" by (fact ok(1))
  have "sent_content srv = Some \<lparr>c_compressed = ci_Compressed fi, c_masterKeyNonce = ci_MasterKeyNonce fi,
      c_keyNonce = ci_KeyNonce fi, c_iv = ci_Iv fi, c_checksum = copy_sum [] ms, c_data = concat (copy_chunks ms)\<rparr>"
    using fi fin by (simp add: sent_content_def srv)
  with ok(3) N show "held_content L V s' = sent_content srv" "sent_content srv \<noteq> None"
    by (auto simp: held_content_def content_of_def new_clipboard_def info_header_def)
qed

lemma Clear_ok:
  assumes "lib_laws L V" and "svc_inv L V s" and "Clear L None s = (Ok (), s')"
  shows "svc_inv L V s'" and "live V (db_db (ws_db s')) = Map.empty" and "ws_config s' = ws_config s"
proof -
  obtain e d where d: "bg_drop_all L (db_db (ws_db s)) = (e, d)" by fastforce
  with assms(3) have e: "e = None" and s': "s' = s\<lparr>ws_db := (ws_db s)\<lparr>db_db := d\<rparr>\<rparr>"
    by (cases e; auto simp: Clear_def DropAll_def)+
  have "live V d = Map.empty" using lib_laws_admin(1) [OF assms(1) d [unfolded e]] .
  with assms(2) s' show "svc_inv L V s'" "live V (db_db (ws_db s')) = Map.empty" "ws_config s' = ws_config s"
    by (simp_all add: svc_inv_def db_inv_def store_inv_def)
qed

lemma expires_keeps:
  assumes "svc_inv L V s" and "expires V (db_db (ws_db s)) d" and "s' = s\<lparr>ws_db := (ws_db s)\<lparr>db_db := d\<rparr>\<rparr>"
  shows "svc_inv L V s'" and "clip L V s' = None"
  using assms by (auto simp: expires_def svc_inv_def db_inv_def store_inv_def clip_def clipboard_of_def split: if_splits)

definition lawful :: "('d, 't, 'w, 'u) lib \<Rightarrow> ('d, 't, 'w, 'u) view \<Rightarrow> ('d, 'u) webClipboardService \<Rightarrow> bool" where
  "lawful L V s \<longleftrightarrow> lib_laws L V \<and> svc_inv L V s"

lemma svc_step_simulated:
  assumes "lawful L V s" and "svc_step L V s e s'"
  shows "lawful L V s' \<and> reg_step (held_content L V s) e (held_content L V s')"
  using assms(2)
proof (cases rule: svc_step_cases)
  case (copy srv ce r)
  obtain r0 s0 where c: "Copy L s srv None = (r0, s0)" by fastforce
  with copy(3) Copy_close [of L s srv ce] have r: "s' = s0" "r = (if r0 = Ok () then lift_err ce else r0)" by auto
  show ?thesis
  proof (cases "r0 = Ok ()")
    case True
    have "lib_laws L V" "svc_inv L V s" using assms(1) by (simp_all add: lawful_def)
    note ok = Copy_ok_stored [OF this copy(2) c [unfolded True]]
    from ok(3) obtain x where "sent_content srv = Some x" by blast
    with ok(1,2) assms(1) r True copy(1) show ?thesis
      by (cases ce) (auto simp: lawful_def intro!: reg_stored)
  next
    case False
    with Copy_failed_lemma [OF _ _ c] assms(1) r copy(1) show ?thesis
      by (auto simp: lawful_def held_content_def intro!: reg_rejected)
  qed
next
  case clear
  have "lib_laws L V" "svc_inv L V s" using assms(1) by (simp_all add: lawful_def)
  note ok = Clear_ok [OF this clear(2)]
  have "held_content L V s' = None" by (simp add: held_content_def clip_def clipboard_of_def ok(2))
  with ok(1) assms(1) clear(1) show ?thesis by (auto simp: lawful_def intro: reg_clear)
next
  case (cancelled x r)
  with assms(1) show ?thesis by (auto simp: Clear_def intro: reg_cancelled)
next
  case (collect timeout reverse r b)
  with gc_tick_safe [of L V "ws_db s" timeout reverse r b] assms(1) show ?thesis
    by (auto simp: lawful_def svc_inv_def held_content_def clip_def intro: reg_collect)
next
  case (expire d)
  with expires_keeps [of L V s d s'] assms(1) show ?thesis
    by (auto simp: lawful_def held_content_def intro: reg_expire)
qed

interpretation service: simulation "svc_step L V" reg_step "lawful L V" "held_content L V" for L V
  by unfold_locales (auto dest: svc_step_simulated)

subsection \<open>A run\<close>

definition sample_stream :: "CopyStream inbox" where
  "sample_stream = \<lparr>in_msgs = copy_msg (CS_Info sample_info) # sample_msgs, in_end = EOF\<rparr>"

definition sample_events :: "event list" where
  "sample_events = [ECopy sample_stream None (Ok ()), ECollect (\<lambda>i. False) True]"

lemma sample_request: "request_ok sample_stream"
  using sample_ttl by (simp add: request_ok_def sample_stream_def sample_info_msg)

lemma sample_run:
  obtains s' where "run (svc_step mem_lib mem_view) mem_service sample_events s'" and "ws_config s' = defaultOption"
proof -
  obtain r b where g: "gc_tick mem_lib (\<lambda>i. False) True (ws_db sample_service) = (r, b)" by fastforce
  have 1: "svc_step mem_lib mem_view mem_service (ECopy sample_stream None (Ok ())) sample_service"
    using sample_copy_run by (intro step_copy sample_request) (simp add: sample_stream_def)
  have 2: "svc_step mem_lib mem_view sample_service (ECollect (\<lambda>i. False) True) (sample_service\<lparr>ws_db := b\<rparr>)"
    by (rule step_collect [OF g])
  have "run (svc_step mem_lib mem_view) mem_service sample_events (sample_service\<lparr>ws_db := b\<rparr>)"
    using run_snoc [where step = "svc_step mem_lib mem_view", OF run_snoc [where step = "svc_step mem_lib mem_view", OF run_nil 1] 2]
    by (simp add: sample_events_def)
  then show ?thesis by (rule that) (simp add: sample_service_def mem_service_def)
qed

lemma sample_held: "held_content mem_lib mem_view mem_service = None"
  by (simp add: held_content_def clip_def clipboard_of_def mem_service_def mem_view_def)

subsection \<open>The service is a register\<close>

text \<open>What a register with content \<open>a\<close> sends to a client that asked for chunks of \<open>n\<close> bytes.\<close>

definition reply :: "nat \<Rightarrow> content option \<Rightarrow> PastStream list" where
  "reply n a =
     (case a of
        None \<Rightarrow> [past_error (str ''no data to paste: key not found'') KeyNotFound]
      | Some c \<Rightarrow>
          [past_info (c_compressed c) (c_checksum c \<noteq> []) (c_masterKeyNonce c) (c_keyNonce c) (c_iv c)] @
          map past_chunk (cut n (c_data c)) @ sum_msgs (c_checksum c))"

lemma Paste_reply:
  assumes "lawful L V s" and "rate_ok s opt" and "outbox_reliable srv"
  shows "\<exists>srv'. Paste L s opt srv = (Ok (), srv') \<and>
    out_sent srv' = out_sent srv @ reply (nat (sint (effective_rate opt))) (held_content L V s)"
proof (cases "clip L V s")
  case None
  have laws: "lib_laws L V" and "store_inv L (live V (db_db (ws_db s))) (nxt V (db_db (ws_db s)))"
    using assms(1) by (simp_all add: lawful_def svc_inv_def db_inv_def)
  with None have "live V (db_db (ws_db s)) latestKey = None" by (simp add: clip_def clipboard_None_iff)
  note p = Paste_missing_lemma [OF laws this assms(2), of srv]
  obtain e srv1 where s1: "stream_Send srv (past_error (str ''no data to paste: key not found'') KeyNotFound) = (e, srv1)"
    by fastforce
  with stream_Send_reliable [OF assms(3) s1] have e: "e = None" by simp
  from stream_Send_ok [OF s1 [unfolded e]] p s1 e None show ?thesis
    by (simp add: reply_def held_content_def)
next
  case (Some x)
  then obtain cb cs where c: "clip L V s = Some (cb, cs)" by (cases x) auto
  have "lib_laws L V" using assms(1) by (simp add: lawful_def)
  from Paste_ok_lemma [OF this c assms(2,3)] c show ?thesis
    by (simp add: reply_def held_content_def content_of_def clip_info_def)
qed



text \<open>
  C4: At every moment of such a run, \<open>Paste\<close> over a stream that accepts its messages succeeds, and its answer is the content of
  the register: header, data in chunks of the size asked for, checksum; or the error \<open>KeyNotFound\<close> when the register is
  empty.
\<close>

theorem paste_reads_register:
  assumes "lib_laws L V" and "svc_inv L V s" and "run (svc_step L V) s es s'" and "rate_ok s' opt" and "outbox_reliable srv"
  shows "\<exists>srv'. Paste L s' opt srv = (Ok (), srv') \<and>
    out_sent srv' = out_sent srv @ reply (nat (sint (effective_rate opt))) (held_content L V s')"
  by (rule Paste_reply [OF _ assms(4,5)]) (use service.run_simulated [OF assms(3)] assms(1,2) in \<open>simp add: lawful_def\<close>)

theorem paste_reads_register_witness:
  "\<exists>s' srv'. run (svc_step mem_lib mem_view) mem_service sample_events s' \<and>
     Paste mem_lib s' sample_option open_outbox = (Ok (), srv') \<and>
     out_sent srv' = reply 2 (held_content mem_lib mem_view s')"
proof -
  obtain s' where r: "run (svc_step mem_lib mem_view) mem_service sample_events s'" and c: "ws_config s' = defaultOption"
    by (rule sample_run)
  have "rate_ok s' sample_option" using sample_rate(2) c by (simp add: rate_ok_def mem_service_def)
  from paste_reads_register [OF mem_laws mem_service_inv r this outbox_reliable_open] r show ?thesis
    by (auto simp: effective_rate_def sample_option_def)
qed

end
