(* ===== verification/End_To_End.thy ===== *)
theory End_To_End
  imports Service Client_Paste
begin

text \<open>
  Client and server together: the messages of one go through the codec and the size limits of gRPC to the other. What a client copies is what a
  client pastes, with any combination of compression, encryption and checksum, and with collections in between.
\<close>

subsection \<open>The calls\<close>

definition reply_error :: "'a result \<Rightarrow> goerr option" where
  "reply_error r = (case r of Ok _ \<Rightarrow> None | Err e \<Rightarrow> Some e | _ \<Rightarrow> Some (StatusError (OtherCode 14) []))"

text \<open>The server's side of a copy: it sees the messages that arrive, then the end of the stream.\<close>

definition copy_rpc ::
  "('d, 't, 'w, 'u) lib \<Rightarrow> ('d, 'u) webClipboardService \<Rightarrow> CopyStream list \<Rightarrow> unit result \<times> ('d, 'u) webClipboardService" where
  "copy_rpc L s msgs = Copy L s (received (wire_copy (sint (sc_grpcMaxRecvSize (ws_config s)))) msgs EOF) None"

text \<open>The client's side of a paste.\<close>

definition paste_rpc ::
  "('d, 't, 'w, 'u) lib \<Rightarrow> ('d, 'u) webClipboardService \<Rightarrow> PasteOption \<Rightarrow> 64 word \<Rightarrow> goerr + PastStream inbox" where
  "paste_rpc L s opt limit =
     (let (r, out) = Paste L s opt open_outbox
      in Inr (received (wire_paste (sint limit)) (out_sent out) (case reply_error r of None \<Rightarrow> EOF | Some e \<Rightarrow> e)))"

subsection \<open>From the client to the store\<close>

lemma sint_less: "sint (x :: 64 word) < 2 ^ 63"
  using sint_lt [of x] by simp

lemma copy_data_simps [simp]:
  "cs_Data (copy_chunk p) = Some (CS_Chunk p)" "cs_Data (copy_checksum p) = Some (CS_Checksum p)"
  "CopyStream_GetChunk (copy_chunk p) = p"
  by (simp_all add: copy_chunk_def copy_checksum_def CopyStream_GetChunk_def)

lemma copy_chunks_map [simp]:
  "copy_chunks (map copy_chunk cs @ ms) = cs @ copy_chunks ms" "copy_fin e (map copy_chunk cs @ ms) = copy_fin e ms"
  "copy_sum c (map copy_chunk cs @ ms) = copy_sum c ms"
  by (induction cs) auto

lemma copy_chunks_map0 [simp]:
  "copy_chunks (map copy_chunk cs) = cs" "copy_fin e (map copy_chunk cs) = e" "copy_sum c (map copy_chunk cs) = c"
  by (induction cs) auto

lemma copy_messages_built: "m \<in> set (copy_messages C config s z D) \<Longrightarrow> CopyStream_built m"
  by (auto simp: copy_messages_def Let_def header_of_def copy_info_def copy_chunk_def copy_checksum_def CopyStream_built_def
      split: if_splits)

text \<open>A stream that is cut short does not end in \<open>io.EOF\<close>.\<close>

lemma copy_fin_prefix:
  assumes "prefix ds (h # map copy_chunk cs @ (if c = [] then [] else [copy_checksum c]))"
    and "ds \<noteq> h # map copy_chunk cs @ (if c = [] then [] else [copy_checksum c])" and "ds \<noteq> []"
  shows "copy_fin e (tl ds) = e"
proof -
  have "prefix ds (h # map copy_chunk cs)"
    using assms(1,2) prefix_snoc [of ds "h # map copy_chunk cs" "copy_checksum c"] by (auto split: if_splits)
  with assms(3) obtain ds' where ds: "ds = h # ds'" "prefix ds' (map copy_chunk cs)" by (cases ds) auto
  then have "ds' = map copy_chunk (take (length ds') cs)" by (metis append_eq_conv_conj prefixE take_map)
  then show ?thesis using ds(1) by (metis copy_chunks_map0(2) list.sel(3))
qed

text \<open>A wire that only refuses the messages that are too big delivers those before the first of them.\<close>

lemma deliver_limit:
  "(\<And>m. m \<in> set ms \<Longrightarrow> wire m = (if big m then Err e else Ok m)) \<Longrightarrow>
     deliver wire ms = (takeWhile (\<lambda>m. \<not> big m) ms, if list_ex big ms then Some e else None)"
  by (induction ms) auto

lemma copy_rpc_stored:
  assumes "lib_laws L V" and "svc_inv L V s" and "msgs = copy_messages C config se z D" and "10 ^ 9 \<le> sint (cfg_Ttl config)"
    and "copy_rpc L s msgs = (Ok (), s')" and "N = nat (sint (cfg_ChunkSize config))"
  shows "svc_inv L V s'"
    and "held_content L V s' = Some \<lparr>c_compressed = cfg_Compression config, c_masterKeyNonce = nonce_of se se_masterKeyNonce,
      c_keyNonce = nonce_of se se_keyNonce, c_iv = nonce_of se se_iv, c_checksum = checksum_of C config D,
      c_data = copy_payload C N se z D\<rparr>"
proof -
  let ?wire = "wire_copy (sint (sc_grpcMaxRecvSize (ws_config s)))"
  let ?cs = "cut N (copy_payload C N se z D)" and ?c = "checksum_of C config D"
  have msgs: "msgs = header_of config se # map copy_chunk ?cs @ (if ?c = [] then [] else [copy_checksum ?c])"
    by (simp add: assms(3,6) copy_messages_def Let_def)
  define big where "big m \<longleftrightarrow> sint (sc_grpcMaxRecvSize (ws_config s)) < int (CopyStream_SizeVT m)" for m
  define ds where "ds = takeWhile (\<lambda>m. \<not> big m) msgs"
  define e where "e = (if list_ex big msgs then err_too_large else EOF)"
  let ?srv = "\<lparr>in_msgs = ds, in_end = e\<rparr>"
  have "?wire m = (if big m then Err err_too_large else Ok m)" if "m \<in> set msgs" for m
    using that assms(3) copy_messages_built sint_less unfolding big_def by (intro wire_copy_built) auto
  from deliver_limit [of msgs ?wire big, OF this] have rcv: "received ?wire msgs EOF = ?srv"
    by (simp add: received_def ds_def e_def)
  have pre: "prefix ds msgs" unfolding ds_def by (rule takeWhile_is_prefix)
  have eof: "e = EOF \<and> ds = msgs \<or> \<not> errors_is e EOF \<and> ds \<noteq> msgs"
    by (simp add: e_def ds_def list_ex_iff err_too_large_def)
  have hd: "ds \<noteq> [] \<Longrightarrow> hd ds = header_of config se" using pre msgs by (cases ds) auto
  have req: "request_ok ?srv"
  proof -
    have "alive (Some (cfg_Ttl config))" using assms(4) by (simp add: alive_def)
    moreover have "cfg_Ttl config \<noteq> 0" using assms(4) by auto
    ultimately show ?thesis
      using eof hd by (cases ds) (auto simp: request_ok_def header_of_def copy_info_def effective_ttl_def)
  qed
  have cp: "Copy L s ?srv None = (Ok (), s')" using assms(5) by (simp add: copy_rpc_def rcv)
  note st = Copy_ok_stored [OF assms(1,2) req cp]
  show "svc_inv L V s'" by (rule st(1))
  have "ds \<noteq> []" using st(3) by (auto simp: sent_content_def)
  moreover have "copy_fin e (tl ds) = EOF"
    using st(3) by (auto simp: sent_content_def split: list.splits option.splits CopyStream_data.splits if_splits)
  ultimately have "ds = msgs \<and> e = EOF" using eof copy_fin_prefix [OF pre [unfolded msgs], of e] msgs by auto
  with st(2) have "held_content L V s' = sent_content \<lparr>in_msgs = msgs, in_end = EOF\<rparr>" by simp
  then show "held_content L V s' = Some \<lparr>c_compressed = cfg_Compression config, c_masterKeyNonce = nonce_of se se_masterKeyNonce,
      c_keyNonce = nonce_of se se_keyNonce, c_iv = nonce_of se se_iv, c_checksum = checksum_of C config D,
      c_data = copy_payload C N se z D\<rparr>"
    by (simp add: sent_content_def msgs header_of_def copy_info_def)
qed

subsection \<open>From the store to the client\<close>

lemma past_data_simps [simp]:
  "ps_Data (past_chunk p) = Some (PS_Chunk p)" "ps_Data (past_sum p) = Some (PS_Checksum p)"
  "PastStream_GetChunk (past_chunk p) = p"
  by (simp_all add: past_chunk_def past_sum_def past_msg_def PastStream_GetChunk_def)

lemma past_stream_simps [simp]:
  "past_chunks (map past_chunk cs @ sum_msgs c) = cs" "past_fin EOF (map past_chunk cs @ sum_msgs c) = EOF"
  "past_final_sum [] (map past_chunk cs @ sum_msgs c) = c"
  by (induction cs) (auto simp: sum_msgs_def)

text \<open>The content fits the limit of the client: headers as the client writes them, chunks of the size it asked for.\<close>

definition fits :: "content \<Rightarrow> bool" where
  "fits c \<longleftrightarrow> length (c_masterKeyNonce c) \<le> 32 \<and> length (c_keyNonce c) \<le> 32 \<and> length (c_iv c) \<le> 24 \<and> length (c_checksum c) \<le> 32"

lemma reply_delivered:
  assumes "fits c" and "0 < n" and "int n + 1000 \<le> limit" and "limit < 2 ^ 63"
  shows "deliver (wire_paste limit) (reply n (Some c)) = (reply n (Some c), None)"
proof (rule deliver_all)
  fix m
  assume m: "m \<in> set (reply n (Some c))"
  have "PastStream_built m \<and> int (PastStream_SizeVT m) \<le> limit"
  proof -
    consider (info) "m = past_info (c_compressed c) (c_checksum c \<noteq> []) (c_masterKeyNonce c) (c_keyNonce c) (c_iv c)"
      | (chunk) p where "m = past_chunk p" "p \<in> set (cut n (c_data c))" | (sum) "m = past_sum (c_checksum c)"
      using m by (auto simp: reply_def sum_msgs_def split: if_splits)
    then show ?thesis
    proof cases
      case info
      then show ?thesis
        using assms(1,3) past_sizes(3) [of "\<lparr>pi_Checksum = c_checksum c \<noteq> [], pi_Compressed = c_compressed c,
          pi_MasterKeyNonce = c_masterKeyNonce c, pi_KeyNonce = c_keyNonce c, pi_Iv = c_iv c, pi_unknownFields = []\<rparr>"]
        by (simp add: past_info_def past_msg_def PastStream_built_def fits_def)
    next
      case (chunk p)
      then show ?thesis
        using assms(3) past_sizes(1) [of p] length_cut [OF assms(2), of p "c_data c"]
        by (simp add: past_chunk_def past_msg_def PastStream_built_def)
    next
      case sum
      then show ?thesis
        using assms(1,3) past_sizes(2) [of "c_checksum c"] by (simp add: past_sum_def past_msg_def PastStream_built_def fits_def)
    qed
  qed
  then show "wire_paste limit m = Ok m" using wire_paste_built [OF _ assms(4), of m] by simp
qed

lemma paste_rpc_reply:
  assumes "lawful L V s" and "held_content L V s = Some c" and "fits c" and "0 < sint n" and "sint n < 2 ^ 63 - 1000"
    and "sint n \<le> sint (sc_grpcMaxRecvSize (ws_config s))"
  shows "paste_rpc L s \<lparr>po_TransferRate = n, po_unknownFields = []\<rparr> (n + 1000) =
    Inr \<lparr>in_msgs = reply (nat (sint n)) (Some c), in_end = EOF\<rparr>"
proof -
  let ?opt = "\<lparr>po_TransferRate = n, po_unknownFields = []\<rparr>"
  have "n \<noteq> 0" using assms(4) by auto
  then have er: "effective_rate ?opt = n" by (simp add: effective_rate_def)
  have "rate_ok s ?opt" using assms(4,6) by (simp add: rate_ok_def er)
  from Paste_reply [OF assms(1) this outbox_reliable_open] obtain out where
    p: "Paste L s ?opt open_outbox = (Ok (), out)" "out_sent out = reply (nat (sint n)) (Some c)" using assms(2) by (auto simp: er)
  have "sint (n + 1000) = sint n + 1000"
    using assms(4,5) by (subst sint_word_ariths) (simp add: signed_take_bit_int_eq_self)
  with reply_delivered [OF assms(3), of "nat (sint n)" "sint (n + 1000)"] assms(4,5) p show ?thesis
    by (simp add: paste_rpc_def reply_error_def received_def)
qed

subsection \<open>Collections in between\<close>

fun is_collection :: "event \<Rightarrow> bool" where
  "is_collection (ECollect timeout reverse) = True"
| "is_collection _ = False"

lemma collections_keep: "run reg_step a es a' \<Longrightarrow> list_all is_collection es \<Longrightarrow> a' = a"
  by (induction rule: run.induct) (auto elim: reg_step.cases)

subsection \<open>Client to client\<close>

text \<open>The content a copy leaves in the register.\<close>

definition copied ::
  "('k, 'e, 'z, 'x, 'y, 'g, 'f) clib \<Rightarrow> copy_option list \<Rightarrow> 'e sealing option \<Rightarrow> 'z option \<Rightarrow> bytes \<Rightarrow> content" where
  "copied C opts se z D =
     \<lparr>c_compressed = cfg_Compression (copy_config opts), c_masterKeyNonce = nonce_of se se_masterKeyNonce,
      c_keyNonce = nonce_of se se_keyNonce, c_iv = nonce_of se se_iv, c_checksum = checksum_of C (copy_config opts) D,
      c_data = copy_payload C (copy_chunkSize opts) se z D\<rparr>"

lemma copied_fits:
  assumes "clib_laws C" and "sealing_of C (copy_config opts) g (Inr pwd) se"
  shows "fits (copied C opts se z D)"
proof (cases se)
  case None
  then show ?thesis using clib_laws_sizes(2) [OF assms(1)]
    by (simp add: fits_def copied_def nonce_of_def checksum_of_def sha256_Size_def)
next
  case (Some x)
  then have "new_sealing C g (Inr pwd) = Ok x" using assms(2) by (auto simp: sealing_of_def split: if_splits)
  note nw = new_sealing_ok [OF assms(1) this]
  from nw(3) clib_laws_nonce [OF assms(1)] have "length (se_iv x) \<le> 24" by auto
  then show ?thesis using clib_laws_sizes(2) [OF assms(1)] nw(1,2) Some
    by (simp add: fits_def copied_def nonce_of_def checksum_of_def sha256_Size_def NonceSize_def)
qed

text \<open>The info header of the reply selects the decrypter and the decoder that undo the writers of the copy.\<close>

lemma reader_matches:
  assumes "clib_laws C" and "sealing_of C (copy_config opts) g (Inr pwd) se" and "encoder_of C (copy_config opts) z"
    and "pi_MasterKeyNonce info = nonce_of se se_masterKeyNonce" and "pi_KeyNonce info = nonce_of se se_keyNonce"
    and "pi_Iv info = nonce_of se se_iv" and "pi_Compressed info = cfg_Compression (copy_config opts)"
  obtains x y where "new_decrypter C (Inr pwd) info = Ok x" and "new_decoder C info = Ok y"
    and "case map_option se_encrypter se of None \<Rightarrow> x = None
      | Some e \<Rightarrow> \<exists>k iv x'. e = sio_EncryptWriter C k iv \<and> sio_DecryptReader C k iv = Ok x' \<and> x = Some x'"
    and "case z of None \<Rightarrow> y = None | Some z \<Rightarrow> zstd_NewWriter C = Inr z \<and> (\<exists>y'. zstd_NewReader C = Inr y' \<and> y = Some y')"
proof -
  have "\<exists>x. new_decrypter C (Inr pwd) info = Ok x \<and> (case map_option se_encrypter se of None \<Rightarrow> x = None
      | Some e \<Rightarrow> \<exists>k iv x'. e = sio_EncryptWriter C k iv \<and> sio_DecryptReader C k iv = Ok x' \<and> x = Some x')"
  proof (cases se)
    case None
    then show ?thesis using assms(4,5) by (simp add: new_decrypter_def nonce_of_def NonceSize_def)
  next
    case (Some e)
    then have "new_sealing C g (Inr pwd) = Ok e" using assms(2) by (auto simp: sealing_of_def split: if_splits)
    note nw = new_sealing_ok [OF assms(1) this]
    from nw(3) obtain k where k: "derive_key C pwd (se_masterKeyNonce e) (se_keyNonce e) = Ok k"
      "length (se_iv e) = sio_NonceSize C k" "se_encrypter e = sio_EncryptWriter C k (se_iv e)" by blast
    from clib_laws_cipher(1) [OF assms(1) k(2)] obtain x' where "sio_DecryptReader C k (se_iv e) = Ok x'" by blast
    with k nw(1,2) Some assms(4-6) show ?thesis by (auto simp: new_decrypter_def nonce_of_def)
  qed
  moreover have "\<exists>y. new_decoder C info = Ok y \<and>
      (case z of None \<Rightarrow> y = None | Some z \<Rightarrow> zstd_NewWriter C = Inr z \<and> (\<exists>y'. zstd_NewReader C = Inr y' \<and> y = Some y'))"
    using assms(3,7) clib_laws_zstd(1) [OF assms(1)] by (auto simp: new_decoder_def encoder_of_def split: if_splits)
  ultimately show ?thesis using that by blast
qed

lemma paste_copied:
  assumes "clib_laws C" and "sealing_of C (copy_config opts) g (Inr pwd) se" and "encoder_of C (copy_config opts) z"
    and "writers_ok C (map_option se_encrypter se) z (blocks (copy_chunkSize opts) D)" and "sink_reliable w"
    and "rpc \<lparr>po_TransferRate = pcfg_ChunkSize (paste_config popts), po_unknownFields = []\<rparr> (pcfg_ChunkSize (paste_config popts) + 1000) =
      Inr \<lparr>in_msgs = reply n (Some (copied C opts se z D)), in_end = EOF\<rparr>"
  shows "\<exists>w'. Client_Paste C rpc (Inr pwd) w popts = (Ok (), w') \<and> sk_data w' = sk_data w @ D"
proof -
  let ?c = "copied C opts se z D"
  define info where "info = \<lparr>pi_Checksum = c_checksum ?c \<noteq> [], pi_Compressed = c_compressed ?c,
    pi_MasterKeyNonce = c_masterKeyNonce ?c, pi_KeyNonce = c_keyNonce ?c, pi_Iv = c_iv ?c, pi_unknownFields = []\<rparr>"
  let ?resp = "\<lparr>in_msgs = map past_chunk (cut n (c_data ?c)) @ sum_msgs (c_checksum ?c), in_end = EOF\<rparr>"
  obtain x y where xy: "new_decrypter C (Inr pwd) info = Ok x" "new_decoder C info = Ok y"
    "case map_option se_encrypter se of None \<Rightarrow> x = None
      | Some e \<Rightarrow> \<exists>k iv x'. e = sio_EncryptWriter C k iv \<and> sio_DecryptReader C k iv = Ok x' \<and> x = Some x'"
    "case z of None \<Rightarrow> y = None | Some z \<Rightarrow> zstd_NewWriter C = Inr z \<and> (\<exists>y'. zstd_NewReader C = Inr y' \<and> y = Some y')"
    by (rule reader_matches [OF assms(1-3), of info]) (simp_all add: info_def copied_def)
  have "delivers gr_Read (\<lambda>gr. Reader_Checksum client_Checksum gr = c_checksum ?c) EOF (paste_reader ?resp)
      (sealed C (map_option se_encrypter se) (encoded C z (blocks (copy_chunkSize opts) D)))"
    using gr_delivers [of "paste_reader ?resp"] by (simp add: copied_def copy_payload_def)
  from input_delivers [OF assms(1,4) this xy(3,4)]
  have "delivers (input_Read C) (\<lambda>inp. Reader_Checksum client_Checksum (fst (fst inp)) = c_checksum ?c) EOF ((paste_reader ?resp, x), y) D"
    by simp
  from paste_receive_delivers [OF xy(1,2) paste_config_positive assms(5) this]
  have "\<exists>w'. paste_receive C (Inr pwd) (pcfg_ChunkSize (paste_config popts)) info ?resp w =
      (check_sum C (pi_Checksum info) (c_checksum ?c) (if pi_Checksum info then D else []), w') \<and> sk_data w' = sk_data w @ D" .
  moreover have "check_sum C (pi_Checksum info) (c_checksum ?c) (if pi_Checksum info then D else []) = Ok ()"
    using clib_laws_sizes(2) [OF assms(1), of D] by (auto simp: check_sum_def info_def copied_def checksum_of_def)
  moreover have "Client_Paste C rpc (Inr pwd) w popts = paste_receive C (Inr pwd) (pcfg_ChunkSize (paste_config popts)) info ?resp w"
    by (rule Client_Paste_info) (use assms(6) in \<open>auto simp: reply_def past_info_def past_msg_def info_def\<close>)
  ultimately show ?thesis by simp
qed

lemma end_to_end_lemma:
  assumes "lib_laws L V" and "svc_inv L V s" and "clib_laws C" and "feeding Read E r D" and "sticky Read E"
    and "Client_Copy C (Inr open_outbox) (\<lambda>msgs. reply_error (fst (copy_rpc L s msgs))) Read r (Inr pwd) g d opts = (Ok sm, msgs)"
    and "10 ^ 9 \<le> sint (cfg_Ttl (copy_config opts))"
    and "run (svc_step L V) (snd (copy_rpc L s msgs)) es s'" and "list_all is_collection es"
    and "sint (pcfg_ChunkSize (paste_config popts)) \<le> sint (sc_grpcMaxRecvSize (ws_config s'))"
    and "sint (pcfg_ChunkSize (paste_config popts)) < 2 ^ 63 - 1000" and "sink_reliable w"
  shows "\<exists>w'. Client_Paste C (paste_rpc L s') (Inr pwd) w popts = (Ok (), w') \<and> sk_data w' = sk_data w @ D"
proof -
  from Client_Copy_spec(2) [OF assms(4-6) refl] obtain se z where
    sz: "sealing_of C (copy_config opts) g (Inr pwd) se" "encoder_of C (copy_config opts) z"
      "writers_ok C (map_option se_encrypter se) z (blocks (copy_chunkSize opts) D)"
      "msgs = copy_messages C (copy_config opts) se z D" and cr: "reply_error (fst (copy_rpc L s msgs)) = None" by auto
  have "copy_rpc L s msgs = (Ok (), snd (copy_rpc L s msgs))"
    using cr by (cases "copy_rpc L s msgs") (auto simp: reply_error_def split: result.splits)
  note st = copy_rpc_stored [OF assms(1,2) sz(4) assms(7) this refl]
  have "lawful L V (snd (copy_rpc L s msgs))" using assms(1) st(1) by (simp add: lawful_def)
  from service.run_simulated [OF assms(8) this] collections_keep [OF _ assms(9)]
  have law: "lawful L V s'" and held: "held_content L V s' = Some (copied C opts se z D)"
    using st(2) by (auto simp: copied_def copy_chunkSize_def)
  from paste_rpc_reply [OF law held copied_fits [OF assms(3) sz(1)] paste_config_positive assms(11,10)]
  show ?thesis by (rule paste_copied [OF assms(3) sz(1-3) assms(12)])
qed

end
