(* ===== verification/Round_Trip.thy ===== *)
theory Round_Trip
  imports Client_Sample End_To_End
begin

text \<open>
  The properties of the client, alone and with the server, each on a run with all options on: compression, encryption and checksum.
\<close>

subsection \<open>A sample run\<close>

definition sample_opts :: "copy_option list" where
  "sample_opts = [WithTransferRate 3, WithChecksum True, WithTtl (- 1), WithCompression True, WithEncryption True]"

definition sample_sealing :: "mark sealing" where
  "sample_sealing = \<lparr>se_masterKeyNonce = replicate 32 3, se_keyNonce = replicate 32 3, se_iv = [3], se_encrypter = (193, False)\<rparr>"

definition sample_digest :: bytes where "sample_digest = replicate 31 0 @ [7]"

definition sample_header :: CopyStream_Info where
  "sample_header = \<lparr>ci_Ttl = DefaultTtl, ci_Compressed = True, ci_MasterKeyNonce = replicate 32 3, ci_KeyNonce = replicate 32 3,
     ci_Iv = [3], ci_unknownFields = []\<rparr>"

definition sample_rest :: "CopyStream list" where
  "sample_rest = [copy_chunk [193, 40, 7], copy_chunk [], copy_checksum sample_digest]"

definition sample_sent :: "CopyStream list" where
  "sample_sent = copy_msg (CS_Info sample_header) # sample_rest"

text \<open>The reply of the server matters only at the end.\<close>

lemma copy_finish_reply:
  assumes "copy_finish C (\<lambda>_. None) config d k st = (Ok sm, h, ch)" and "f (out_sent (chain_outbox ch)) = None"
  shows "copy_finish C f config d k st = (Ok sm, h, ch)"
  using assms by (auto simp: copy_finish_def Let_def and_then_Ok_iff split: prod.splits result.splits)

lemma copy_send_reply:
  assumes "copy_send C (\<lambda>_. None) Read r config d s z st = (Ok sm, h, ch)" and "f (out_sent (chain_outbox ch)) = None"
  shows "copy_send C f Read r config d s z st = (Ok sm, h, ch)"
  using assms copy_finish_reply [where C = C and config = config and d = d and sm = sm and h = h and ch = ch and f = f]
  by (auto simp: copy_send_def Let_def and_then_Ok_iff split: prod.splits option.splits)

lemma Client_Copy_reply:
  fixes C :: "('k, 'e, 'z, 'x, 'y, 'g, 'f) clib"
  assumes "Client_Copy C opened (\<lambda>_. None) Read r secret g d opts = (Ok sm, msgs)" and "f msgs = None"
  shows "Client_Copy C opened f Read r secret g d opts = (Ok sm, msgs)"
proof -
  let ?config = "copy_config opts"
  obtain stream where op: "opened = Inr stream" "\<not> sint (cfg_ChunkSize ?config) < 0"
    using assms(1) by (auto simp: Client_Copy_def Let_def split: sum.splits if_splits)
  define st :: "('e, 'z) copy_state" where "st = (if cfg_Checksum ?config then Some [] else None,
    \<lparr>ch_cnt = BytesWriteCounter (NewWriter (new_client_sender stream) (replicate (nat (sint (cfg_ChunkSize ?config))) 0)),
     ch_encrypter = None, ch_encoder = None\<rparr>)"
  define se where "se = (if cfg_Encryption ?config then bind_result (new_sealing C g secret) (\<lambda>s. Ok (Some s)) else Ok None)"
  define body where "body f = and_then (se, st) (\<lambda>s st. and_then (new_encoder C ?config, st) (\<lambda>z st. copy_send C f Read r ?config d s z st))"
    for f
  have eq: "Client_Copy C opened f Read r secret g d opts = (case body f of (res, h, ch) \<Rightarrow> (res, out_sent (chain_outbox ch)))" for f
    using op by (simp add: Client_Copy_def Let_def body_def st_def se_def)
  obtain h ch where b: "body (\<lambda>_. None) = (Ok sm, h, ch)" and m: "msgs = out_sent (chain_outbox ch)"
    using assms(1) unfolding eq by (cases "body (\<lambda>_. None)") auto
  from b obtain s z st1 st2 where "se = Ok s" "st1 = st" "new_encoder C ?config = Ok z" "st2 = st1"
    "copy_send C (\<lambda>_. None) Read r ?config d s z st2 = (Ok sm, h, ch)" unfolding body_def and_then_Ok_iff by blast
  moreover from this have "copy_send C f Read r ?config d s z st2 = (Ok sm, h, ch)"
    using copy_send_reply [where f = f] assms(2) m by metis
  ultimately have "body f = (Ok sm, h, ch)" unfolding body_def by simp
  then show ?thesis unfolding eq using m by simp
qed

lemma sample_Client_Copy:
  assumes "f sample_sent = None"
  shows "Client_Copy sample_clib (Inr open_outbox) f bytes_Read [7] (Inr [1]) () 0 sample_opts =
    (Ok (copy_summary sample_clib (copy_config sample_opts) 0 [7] [193, 40, 7]), sample_sent)"
proof (rule Client_Copy_reply [where f = f, OF _ assms])
  show "Client_Copy sample_clib (Inr open_outbox) (\<lambda>_. None) bytes_Read [7] (Inr [1]) () 0 sample_opts =
    (Ok (copy_summary sample_clib (copy_config sample_opts) 0 [7] [193, 40, 7]), sample_sent)" by code_simp
qed

definition sample_stored :: Clipboard where
  "sample_stored = new_clipboard mem_lib 0 DefaultTtl (info_header sample_header) sample_digest 3"

definition sample_held_reader :: "grpcReceiver Reader" where
  "sample_held_reader =
     \<lparr>r_r = \<lparr>gr_srv = \<lparr>in_msgs = [], in_end = EOF\<rparr>, gr_checksum = sample_digest\<rparr>,
      r_t = [], r_tLen = 0, r_tIndex = 0, r_pIndex = 3\<rparr>"

lemma sample_server_read:
  "copy_Read (copy_reader sample_rest EOF) [0, 0, 0, 0] = (Ok (3, Some EOF), [193, 40, 7, 0], sample_held_reader)"
  by (simp add: copy_reader_def sample_rest_def copy_chunk_def copy_checksum_def NewReader_def newGrpcReceiver_def sample_held_reader_def reads_simps)

lemma sample_stored_latest:
  assumes "bw_batchSize bw = 62" "db_valueLogFileSize b = 500"
  shows "put_latest mem_lib sample_stored ttl (b, bw) = (Ok (),
    b\<lparr>db_db := ((latestKey, Clipboard_bytes sample_stored) # bw_WriteBatch bw @ fst (db_db b), snd (db_db b))\<rparr>,
    bw\<lparr>bw_WriteBatch := [],
       bw_batchSize := bw_batchSize bw + estimateEntrySize latestKey (Clipboard_bytes sample_stored)\<rparr>)"
proof -
  have "Clipboard_SizeVT sample_stored \<le> 210" "cb_unknownFields sample_stored = []"
    using Clipboard_SizeVT_le [of sample_stored]
    by (simp_all add: sample_stored_def new_clipboard_def info_header_def sample_header_def sample_digest_def)
  with assms show ?thesis
    by (intro mem_put_latest)
       (simp_all add: estimateEntrySize_def maxHeaderSize_def crc32_Size_def length_Clipboard_bytes)
qed

definition sample_after :: "(mem, mem_entropy) webClipboardService" where
  "sample_after = mem_service\<lparr>ws_db := (ws_db mem_service)\<lparr>db_db :=
     ([(latestKey, Clipboard_bytes sample_stored), (chunk_key 0 (mem_ulid 1), [193, 40, 7])], 1), db_entropy := 1\<rparr>\<rparr>"

lemma sample_stored_write:
  "WriteBatch mem_lib copy_Read copy_Checksum (ws_db mem_service) (copy_reader sample_rest EOF) DefaultTtl
     (info_header sample_header) = (Ok 3, ws_db sample_after, sample_held_reader)"
proof -
  have "replicate 4 (0 :: byte) = [0, 0, 0, 0]" "length (format_uint 0) = 1"
    by (simp_all add: numeral_eq_Suc format_uint_def format_nat.simps)
  then show ?thesis
    by (simp add: WriteBatch_def mem_service_def sample_after_def batch_loop.simps sample_server_read
        mem_put_chunk estimateEntrySize_def maxHeaderSize_def crc32_Size_def NewBatchWriter_def copy_Checksum_def
        Reader_Checksum_def grpcReceiver_Checksum_def sample_held_reader_def sample_stored_latest mem_Release numeral_2_eq_2
        flip: sample_stored_def)
qed

lemma copy_sizes:
  "CopyStream_SizeVT \<lparr>cs_Data = Some (CS_Chunk p), cs_unknownFields = []\<rparr> \<le> length p + 11"
  "CopyStream_SizeVT \<lparr>cs_Data = Some (CS_Checksum p), cs_unknownFields = []\<rparr> \<le> length p + 11"
  "CopyStream_SizeVT \<lparr>cs_Data = Some (CS_Info v), cs_unknownFields = []\<rparr> \<le>
     66 + length (ci_MasterKeyNonce v) + length (ci_KeyNonce v) + length (ci_Iv v) + length (ci_unknownFields v)"
  using sov_le [of "word_of_nat (length p)"] sov_le [of "word_of_nat (CopyStream_Info_SizeVT v)"] size_field_le(1) [of "ci_Ttl v"]
    size_field_le(3) [of "ci_Compressed v"] size_field_le(2) [of "ci_MasterKeyNonce v"] size_field_le(2) [of "ci_KeyNonce v"]
    size_field_le(2) [of "ci_Iv v"]
  by (simp_all add: CopyStream_SizeVT_def size_bytes_always_def CopyStream_Info_SizeVT_def Let_def)

lemma sample_copy_rpc: "copy_rpc mem_lib mem_service sample_sent = (Ok (), sample_after)"
proof -
  let ?wire = "wire_copy (sint (sc_grpcMaxRecvSize (ws_config mem_service)))"
  have "?wire m = Ok m" if "m \<in> set sample_sent" for m
  proof -
    have "CopyStream_built m \<and> CopyStream_SizeVT m \<le> 1000"
      using that copy_sizes(1) [of "[193, 40, 7]"] copy_sizes(1) [of "[]"] copy_sizes(2) [of sample_digest] copy_sizes(3) [of sample_header]
      by (auto simp: sample_sent_def sample_rest_def copy_chunk_def copy_checksum_def copy_msg_def CopyStream_built_def sample_digest_def
          sample_header_def)
    moreover have "sint (sc_grpcMaxRecvSize (ws_config mem_service)) \<ge> 1000" by code_simp
    ultimately show ?thesis using wire_copy_built [OF _ sint_less, of m] by simp
  qed
  then have "received ?wire sample_sent EOF = \<lparr>in_msgs = sample_sent, in_end = EOF\<rparr>"
    by (simp add: received_def deliver_all)
  moreover have "cs_Data (copy_msg (CS_Info sample_header)) = Some (CS_Info sample_header)" by (simp add: copy_msg_def)
  moreover have "effective_ttl sample_header = DefaultTtl" by (simp add: effective_ttl_def sample_header_def)
  ultimately show ?thesis
    using Copy_info [of "copy_msg (CS_Info sample_header)" sample_header mem_lib mem_service sample_rest EOF None]
    by (simp add: copy_rpc_def sample_sent_def sample_stored_write sample_after_def)
qed

lemma sample_copied:
  "Client_Copy sample_clib (Inr open_outbox) (\<lambda>msgs. reply_error (fst (copy_rpc mem_lib mem_service msgs))) bytes_Read [7] (Inr [1]) () 0
     sample_opts = (Ok (copy_summary sample_clib (copy_config sample_opts) 0 [7] [193, 40, 7]), sample_sent)"
  by (rule sample_Client_Copy) (simp add: sample_copy_rpc reply_error_def)

lemma sample_collected:
  obtains s' where "run (svc_step mem_lib mem_view) sample_after [ECollect (\<lambda>i. False) True] s'" and "ws_config s' = defaultOption"
proof -
  obtain r b where "gc_tick mem_lib (\<lambda>i. False) True (ws_db sample_after) = (r, b)" by fastforce
  from run_snoc [where step = "svc_step mem_lib mem_view", OF run_nil step_collect [OF this]]
  have "run (svc_step mem_lib mem_view) sample_after [ECollect (\<lambda>i. False) True] (sample_after\<lparr>ws_db := b\<rparr>)" by simp
  then show ?thesis by (rule that) (simp add: sample_after_def mem_service_def)
qed

lemma sample_limits:
  "10 ^ 9 \<le> sint (cfg_Ttl (copy_config sample_opts))" "sint (pcfg_ChunkSize (paste_config [PasteTransferRate 2])) \<le> sint (sc_grpcMaxRecvSize defaultOption)"
  "sint (pcfg_ChunkSize (paste_config [PasteTransferRate 2])) < 2 ^ 63 - 1000"
  by code_simp+

definition new_sink :: sink where "new_sink = \<lparr>sk_data = [], sk_errs = []\<rparr>"

lemma new_sink_simps [simp]: "sink_reliable new_sink" "sk_data new_sink = []"
  by (simp_all add: new_sink_def sink_reliable_def)

subsection \<open>Copy and paste\<close>

text \<open>
  C1: What one client copies is what another pastes. If \<open>Copy\<close> of the client reports success for the input \<open>D\<close>, with any chunk size and any choice of
  compression, encryption and checksum, then after any number of collections \<open>Paste\<close>, with the same password and any chunk size the server
  accepts, reports success and has written exactly \<open>D\<close>. Every message went through the codec and the size limits on the way.
\<close>

theorem end_to_end:
  assumes "lib_laws L V" and "svc_inv L V s" and "clib_laws C" and "feeding Read E r D" and "sticky Read E"
    and "Client_Copy C (Inr open_outbox) (\<lambda>msgs. reply_error (fst (copy_rpc L s msgs))) Read r (Inr pwd) g d opts = (Ok sm, msgs)"
    and "10 ^ 9 \<le> sint (cfg_Ttl (copy_config opts))"
    and "run (svc_step L V) (snd (copy_rpc L s msgs)) es s'" and "list_all is_collection es"
    and "sint (pcfg_ChunkSize (paste_config popts)) \<le> sint (sc_grpcMaxRecvSize (ws_config s'))"
    and "sint (pcfg_ChunkSize (paste_config popts)) < 2 ^ 63 - 1000" and "sink_reliable w"
  shows "\<exists>w'. Client_Paste C (paste_rpc L s') (Inr pwd) w popts = (Ok (), w') \<and> sk_data w' = sk_data w @ D"
  by (rule end_to_end_lemma [OF assms])

theorem end_to_end_witness:
  "\<exists>s' w'. run (svc_step mem_lib mem_view) sample_after [ECollect (\<lambda>i. False) True] s' \<and>
     Client_Paste sample_clib (paste_rpc mem_lib s') (Inr [1]) new_sink [PasteTransferRate 2] = (Ok (), w') \<and> sk_data w' = [7]"
proof -
  obtain s' where s': "run (svc_step mem_lib mem_view) sample_after [ECollect (\<lambda>i. False) True] s'" "ws_config s' = defaultOption"
    by (rule sample_collected)
  have "run (svc_step mem_lib mem_view) (snd (copy_rpc mem_lib mem_service sample_sent)) [ECollect (\<lambda>i. False) True] s'"
    using s'(1) by (simp add: sample_copy_rpc)
  from end_to_end [OF mem_laws mem_service_inv sample_clib_laws bytes_feeding bytes_sticky sample_copied sample_limits(1) this _ _ sample_limits(3)
      new_sink_simps(1)] s' sample_limits(2) show ?thesis by auto
qed

end
