(* ===== verification/Client_Props.thy ===== *)
theory Client_Props
  imports Round_Trip
begin

text \<open>
  Properties of the client: what \<open>Copy\<close> sends and when it returns, and that \<open>Paste\<close> does not report success for data that was cut short, altered or does
  not match its checksum, nor when the server reports an error.
\<close>

subsection \<open>Options\<close>

text \<open>
  C29: Whatever the options, the chunk size and the time to live of a copy and the chunk size of a paste are positive; so the buffers are never empty and
  \<^verbatim>\<open>make\<close> does not panic. A value that is not positive is ignored: the option leaves the configuration as it was.
\<close>

theorem options_positive:
  "0 < sint (cfg_ChunkSize (copy_config opts)) \<and> 0 < sint (cfg_Ttl (copy_config opts)) \<and> 0 < sint (pcfg_ChunkSize (paste_config popts)) \<and>
   (\<not> 0 < sint n \<longrightarrow> copy_config (opts @ [WithTransferRate n]) = copy_config opts \<and> copy_config (opts @ [WithTtl n]) = copy_config opts \<and>
      paste_config (popts @ [PasteTransferRate n]) = paste_config popts)"
  using copy_config_positive [of opts] paste_config_positive [of popts] by (auto simp: copy_config_def paste_config_def)

theorem options_positive_witness:
  "copy_config (sample_opts @ [WithTransferRate (- 3)]) = copy_config sample_opts \<and> 0 < sint (cfg_ChunkSize (copy_config sample_opts))"
  using options_positive [of sample_opts "[]" "- 3"] by simp

subsection \<open>Copy\<close>

text \<open>
  C8: \<open>Copy\<close> of the client returns, whatever the stream, the secret and the reply do. When it reports success it has sent the info header, the input
  compressed and encrypted as the options say and cut into chunks, and the checksum of the input; the server has accepted these messages; and the
  summary counts the bytes read and the bytes sent.
\<close>

theorem Client_Copy_sends:
  assumes "feeding Read E r D" and "sticky Read E"
    and "Client_Copy C (Inr stream) CloseAndRecv Read r secret g d opts = (res, msgs)"
  shows "returns res \<and> (\<forall>sm. res = Ok sm \<longrightarrow>
    (\<exists>s z. sealing_of C (copy_config opts) g secret s \<and> encoder_of C (copy_config opts) z \<and>
       msgs = out_sent stream @ copy_messages C (copy_config opts) s z D \<and> CloseAndRecv msgs = None \<and>
       sm = copy_summary C (copy_config opts) d D (copy_payload C (copy_chunkSize opts) s z D)))"
  using Client_Copy_spec [OF assms] by blast

theorem Client_Copy_sends_witness:
  "\<exists>s z. sealing_of sample_clib (copy_config sample_opts) () (Inr [1]) s \<and> encoder_of sample_clib (copy_config sample_opts) z \<and>
     sample_sent = copy_messages sample_clib (copy_config sample_opts) s z [7]"
  using Client_Copy_sends [OF bytes_feeding bytes_sticky sample_copied] by auto

subsection \<open>Paste\<close>

text \<open>The header of data that is neither compressed nor encrypted.\<close>

definition plain_info :: "PastStream_Info \<Rightarrow> bool" where
  "plain_info info \<longleftrightarrow> \<not> pi_Compressed info \<and> (length (pi_MasterKeyNonce info) \<noteq> NonceSize \<or> length (pi_KeyNonce info) \<noteq> NonceSize)"

lemma plain_readers: "plain_info info \<Longrightarrow> new_decrypter C secret info = Ok None \<and> new_decoder C info = Ok None"
  by (auto simp: plain_info_def new_decrypter_def new_decoder_def)

lemma plain_delivers:
  assumes "past_fin e ms = EOF"
  shows "delivers (input_Read C) (\<lambda>inp. Reader_Checksum client_Checksum (fst (fst inp)) = past_final_sum [] ms) EOF
    ((paste_reader \<lparr>in_msgs = ms, in_end = e\<rparr>, None), None) (concat (past_chunks ms))"
proof -
  have "delivers gr_Read (\<lambda>gr. Reader_Checksum client_Checksum gr = past_final_sum [] ms) EOF (paste_reader \<lparr>in_msgs = ms, in_end = e\<rparr>)
      (concat (past_chunks ms))"
    using gr_delivers [of "paste_reader \<lparr>in_msgs = ms, in_end = e\<rparr>"] assms by simp
  then show ?thesis
    by (rule delivers_sim [where f = "\<lambda>gr. ((gr, None), None)"]) (simp_all add: input_Read_def source_Read_def split: prod.splits)
qed

text \<open>The request of a paste, and the limit on the messages of its reply.\<close>

definition answered :: "(PasteOption \<Rightarrow> 64 word \<Rightarrow> goerr + PastStream inbox) \<Rightarrow> paste_option list \<Rightarrow> PastStream list \<Rightarrow> goerr \<Rightarrow> bool" where
  "answered rpc opts ms e \<longleftrightarrow>
     rpc \<lparr>po_TransferRate = pcfg_ChunkSize (paste_config opts), po_unknownFields = []\<rparr> (pcfg_ChunkSize (paste_config opts) + 1000) =
       Inr \<lparr>in_msgs = ms, in_end = e\<rparr>"

lemma Client_Paste_receive:
  "answered rpc opts (m # ms) e \<Longrightarrow> ps_Data m = Some (PS_Info info) \<Longrightarrow>
     Client_Paste C rpc secret w opts = paste_receive C secret (pcfg_ChunkSize (paste_config opts)) info \<lparr>in_msgs = ms, in_end = e\<rparr> w"
  unfolding answered_def by (rule Client_Paste_info)

text \<open>
  C9: A plain paste whose stream ends properly writes the chunks in order, and reports success exactly when no checksum was announced or the
  last message carries the SHA-256 sum of what was written: a missing, malformed or wrong checksum is an error.
\<close>

theorem paste_verifies_checksum:
  assumes "answered rpc opts (m # ms) e" and "ps_Data m = Some (PS_Info info)" and "plain_info info" and "past_fin e ms = EOF"
    and "sink_reliable w"
  shows "\<exists>w'. Client_Paste C rpc secret w opts = (check_sum C (pi_Checksum info) (past_final_sum [] ms) (concat (past_chunks ms)), w') \<and>
    sk_data w' = sk_data w @ concat (past_chunks ms) \<and>
    (fst (Client_Paste C rpc secret w opts) = Ok () \<longleftrightarrow>
       (pi_Checksum info \<longrightarrow> length (past_final_sum [] ms) = sha256_Size \<and> past_final_sum [] ms = sha256_Sum C (concat (past_chunks ms))))"
proof -
  have "check_sum C (pi_Checksum info) d (if pi_Checksum info then D else []) = check_sum C (pi_Checksum info) d D" for d D
    by (simp add: check_sum_def)
  with paste_receive_delivers [OF _ _ paste_config_positive assms(5) plain_delivers [OF assms(4)], of C secret info opts] plain_readers [OF assms(3)]
  obtain w' where "Client_Paste C rpc secret w opts = (check_sum C (pi_Checksum info) (past_final_sum [] ms) (concat (past_chunks ms)), w')"
    "sk_data w' = sk_data w @ concat (past_chunks ms)" unfolding Client_Paste_receive [OF assms(1,2)] by auto
  then show ?thesis by (auto simp: check_sum_def)
qed

definition sample_reply :: "bytes \<Rightarrow> PastStream list" where
  "sample_reply c = past_info False True [] [] [] # [past_chunk [1, 2], past_chunk [3], past_sum c]"

definition sample_answer :: "PastStream list \<Rightarrow> goerr \<Rightarrow> PasteOption \<Rightarrow> 64 word \<Rightarrow> goerr + PastStream inbox" where
  "sample_answer ms e opt limit = Inr \<lparr>in_msgs = ms, in_end = e\<rparr>"

lemma sample_answered [simp]: "answered (sample_answer ms e) opts ms e"
  by (simp add: answered_def sample_answer_def)

lemma past_info_data [simp]:
  "ps_Data (past_info z c mk k iv) = Some (PS_Info \<lparr>pi_Checksum = c, pi_Compressed = z, pi_MasterKeyNonce = mk, pi_KeyNonce = k, pi_Iv = iv,
     pi_unknownFields = []\<rparr>)"
  by (simp add: past_info_def past_msg_def)

text \<open>The right checksum is accepted, a wrong one of the right length is not.\<close>

theorem paste_verifies_checksum_witness:
  "fst (Client_Paste sample_clib (sample_answer (sample_reply (replicate 31 0 @ [6])) EOF) (Inr []) new_sink []) = Ok () \<and>
   fst (Client_Paste sample_clib (sample_answer (sample_reply (replicate 31 0 @ [7])) EOF) (Inr []) new_sink []) \<noteq> Ok ()"
proof -
  define info where "info = \<lparr>pi_Checksum = True, pi_Compressed = False, pi_MasterKeyNonce = [], pi_KeyNonce = [], pi_Iv = [], pi_unknownFields = []\<rparr>"
  let ?ms = "\<lambda>c. [past_chunk [1, 2], past_chunk [3], past_sum c]"
  have "ps_Data (past_info False True [] [] []) = Some (PS_Info info)" "plain_info info" by (simp_all add: info_def plain_info_def NonceSize_def)
  from paste_verifies_checksum [where ms = "?ms c" and e = EOF and w = new_sink and opts = "[]" and C = sample_clib and secret = "Inr []" for c,
      OF sample_answered this]
  have "fst (Client_Paste sample_clib (sample_answer (sample_reply c) EOF) (Inr []) new_sink []) = Ok () \<longleftrightarrow>
      length c = sha256_Size \<and> c = sha256_Sum sample_clib [1, 2, 3]" for c
    by (fastforce simp: sample_reply_def info_def)
  then show ?thesis by (simp add: sha256_Size_def sample_clib_def)
qed


text \<open>
  C10: A stream that breaks before its end, because the server or the connection failed, because of a message that is out of place or larger than the
  limit, is never taken for a complete paste: with any combination of compression and encryption \<open>Paste\<close> does not report success.
\<close>

theorem paste_broken_stream:
  assumes "clib_laws C" and "answered rpc opts (m # ms) e" and "ps_Data m = Some (PS_Info info)" and "\<not> errors_is (past_fin e ms) EOF"
  shows "fst (Client_Paste C rpc secret w opts) \<noteq> Ok ()"
proof -
  have "fails gr_Read (paste_reader \<lparr>in_msgs = ms, in_end = e\<rparr>)" using assms(4) by (intro gr_fails) simp_all
  then have "fails (input_Read C) ((paste_reader \<lparr>in_msgs = ms, in_end = e\<rparr>, x), y)"
    if "new_decrypter C secret info = Ok x" "new_decoder C info = Ok y" for x y
    using source_fails [OF assms(1)] input_fails [OF assms(1)] new_decrypter_cases [OF that(1)] new_decoder_cases [OF that(2)] by blast
  then show ?thesis unfolding Client_Paste_receive [OF assms(2,3)] by (intro paste_receive_fails paste_config_positive)
qed

theorem paste_broken_stream_witness:
  "fst (Client_Paste sample_clib (sample_answer [past_info True False (replicate 32 3) (replicate 32 3) [3], past_chunk [193, 40]]
     (External [])) (Inr [1]) new_sink []) \<noteq> Ok ()"
  by (rule paste_broken_stream [OF sample_clib_laws sample_answered past_info_data]) simp

text \<open>
  C11: Encrypted data that was altered is rejected. If the chunks of a stream are not together what an encrypter with the derived key and the
  announced initialisation vector can have written (bytes changed, dropped, added or reordered, a wrong password), \<open>Paste\<close> does not report success.
\<close>

theorem paste_rejects_altered:
  assumes "clib_laws C" and "authentic C" and "answered rpc opts (m # ms) e" and "ps_Data m = Some (PS_Info info)" and "past_fin e ms = EOF"
    and "length (pi_MasterKeyNonce info) = NonceSize" and "length (pi_KeyNonce info) = NonceSize"
    and "derive_key C pwd (pi_MasterKeyNonce info) (pi_KeyNonce info) = Ok k"
    and "\<nexists>ps. emits_ok (sio_Write C) (sio_Close C) (sio_EncryptWriter C k (pi_Iv info)) ps \<and>
      concat (past_chunks ms) = concat (emitted (sio_Write C) (sio_Close C) (sio_EncryptWriter C k (pi_Iv info)) ps)"
  shows "fst (Client_Paste C rpc (Inr pwd) w opts) \<noteq> Ok ()"
proof -
  let ?r = "paste_reader \<lparr>in_msgs = ms, in_end = e\<rparr>"
  have del: "delivers gr_Read (\<lambda>gr. Reader_Checksum client_Checksum gr = past_final_sum [] ms) EOF ?r (concat (past_chunks ms))"
    using gr_delivers [of ?r] assms(5) by simp
  have "fails (input_Read C) ((?r, x), y)" if xy: "new_decrypter C (Inr pwd) info = Ok x" "new_decoder C info = Ok y" for x y
  proof -
    from xy(1) obtain x' where x: "sio_DecryptReader C k (pi_Iv info) = Ok x'" "x = Some x'"
      using assms(6-8) by (auto simp: new_decrypter_def bind_result_Ok_iff)
    with assms(2,9) del have "fails (sio_Read C gr_Read) (x', ?r)" unfolding authentic_def by blast
    from fails_sim [OF this, where f = "\<lambda>s. (snd s, Some (fst s))" and Read' = "source_Read C"] x(2)
    have "fails (source_Read C) (?r, x)" by (simp add: source_Read_def split_beta)
    from input_fails [OF assms(1) this new_decoder_cases [OF xy(2)]] show ?thesis .
  qed
  then show ?thesis unfolding Client_Paste_receive [OF assms(3,4)] by (intro paste_receive_fails paste_config_positive)
qed

text \<open>The data of the sample run under another password.\<close>

theorem paste_rejects_altered_witness:
  "fst (Client_Paste sample_clib (sample_answer [past_info True False (replicate 32 3) (replicate 32 3) [3], past_chunk [193, 40, 7]] EOF)
     (Inr [2]) new_sink []) \<noteq> Ok ()"
proof -
  have "derive_key sample_clib [2] (replicate 32 3) (replicate 32 3) = Ok 194"
    by (simp add: derive_key_def DerivePassword_def DeriveMasterKey_def sample_clib_def numeral_eq_Suc)
  from paste_rejects_altered [where ms = "[past_chunk [193, 40, 7]]" and e = EOF, OF sample_clib_laws sample_authentic sample_answered past_info_data]
    this show ?thesis by (simp add: NonceSize_def) (simp add: sample_clib_def)
qed

subsection \<open>Errors of the server\<close>



lemma past_error_size: "PastStream_SizeVT (past_error t kind) \<le> 35 + length t"
  using sov_le [of "word_of_nat (PastStream_Error_SizeVT \<lparr>pe_Type = kind, pe_Message = t, pe_unknownFields = []\<rparr>)"]
    size_field_le(2) [of t] size_field_le(1) [of "scast kind"]
  by (simp add: past_error_def past_msg_def PastStream_SizeVT_def PastStream_Error_SizeVT_def Let_def)

definition no_data :: bytes where "no_data = str ''no data to paste: key not found''"

lemma paste_rpc_empty:
  assumes "lawful L V s" and "held_content L V s = None" and "0 < sint n" and "sint n < 2 ^ 63 - 1000"
    and "sint n \<le> sint (sc_grpcMaxRecvSize (ws_config s))"
  shows "paste_rpc L s \<lparr>po_TransferRate = n, po_unknownFields = []\<rparr> (n + 1000) = Inr \<lparr>in_msgs = [past_error no_data KeyNotFound], in_end = EOF\<rparr>"
proof -
  let ?opt = "\<lparr>po_TransferRate = n, po_unknownFields = []\<rparr>"
  have "n \<noteq> 0" using assms(3) by auto
  then have er: "effective_rate ?opt = n" by (simp add: effective_rate_def)
  have "rate_ok s ?opt" using assms(3,5) by (simp add: rate_ok_def er)
  from Paste_reply [OF assms(1) this outbox_reliable_open] obtain out where
    p: "Paste L s ?opt open_outbox = (Ok (), out)" "out_sent out = [past_error no_data KeyNotFound]"
    using assms(2) by (auto simp: reply_def no_data_def)
  have "int (PastStream_SizeVT (past_error no_data KeyNotFound)) \<le> 1000"
    using past_error_size [of no_data KeyNotFound] by (simp add: no_data_def str_def)
  moreover have "sint (n + 1000) = sint n + 1000"
    using assms(3,4) by (subst sint_word_ariths) (simp add: signed_take_bit_int_eq_self)
  moreover have "PastStream_built (past_error no_data KeyNotFound)" by (simp add: past_error_def past_msg_def PastStream_built_def)
  ultimately have "wire_paste (sint (n + 1000)) (past_error no_data KeyNotFound) = Ok (past_error no_data KeyNotFound)"
    using wire_paste_built [OF _ sint_less, of "past_error no_data KeyNotFound" "n + 1000"] assms(3) by simp
  with p show ?thesis by (simp add: paste_rpc_def reply_error_def received_def)
qed

text \<open>
  C27: After a clear that the server reported as done, a paste with any chunk size the server accepts ends in the error \<^verbatim>\<open>no data to paste: key not found\<close>
  and writes nothing, whatever was stored before.
\<close>

theorem clear_then_paste:
  assumes "lib_laws L V" and "svc_inv L V s" and "Clear L None s = (Ok (), s')"
    and "sint (pcfg_ChunkSize (paste_config opts)) \<le> sint (sc_grpcMaxRecvSize (ws_config s))"
    and "sint (pcfg_ChunkSize (paste_config opts)) < 2 ^ 63 - 1000"
  shows "Client_Paste C (paste_rpc L s') secret w opts = (Err (Errorf no_data), w)"
proof -
  note cl = Clear_ok [OF assms(1-3)]
  have "lawful L V s'" "held_content L V s' = None"
    using assms(1) cl by (simp_all add: lawful_def held_content_def clip_def clipboard_of_def)
  from paste_rpc_empty [OF this paste_config_positive assms(5)] assms(4) show ?thesis
    by (simp add: cl(3) Client_Paste_def past_error_def past_msg_def)
qed

theorem clear_then_paste_witness:
  "\<exists>s'. Clear mem_lib None mem_service = (Ok (), s') \<and>
     Client_Paste sample_clib (paste_rpc mem_lib s') (Inr []) new_sink [PasteTransferRate 2] = (Err (Errorf no_data), new_sink)"
proof -
  obtain s' where c: "Clear mem_lib None mem_service = (Ok (), s')" by (auto simp: Clear_def DropAll_def mem_lib_def)
  have "ws_config mem_service = defaultOption" by (simp add: mem_service_def)
  with clear_then_paste [OF mem_laws mem_service_inv c] sample_limits(2,3) c show ?thesis by auto
qed

end
