(* ===== verification/Server_Checks.thy ===== *)
theory Server_Checks
  imports Service
begin

text \<open>
  The configuration of the server and the requests it refuses: what the options guarantee, when a server demands client certificates, what
  \<open>Status\<close> reports, the limits on \<open>Paste\<close>, and the two requests that make a handler panic.
\<close>

subsection \<open>Options and credentials\<close>

lemma apply_options_limit:
  "0 < sint (sc_grpcMaxRecvSize c) \<Longrightarrow> 0 < sint (sc_grpcMaxRecvSize (apply_options opts c))"
proof (induction opts arbitrary: c)
  case (Cons opt opts)
  have "0 < sint (sc_grpcMaxRecvSize (apply_option opt c))" using Cons.prems by (cases opt) auto
  from Cons.IH [OF this] show ?case by (simp add: apply_options_def)
qed (simp add: apply_options_def)

lemma default_limit: "0 < sint (sc_grpcMaxRecvSize defaultOption)"
  by code_simp

lemma LoadCertificate_ok:
  assumes "LoadCertificate X ca cert key conf = Ok tls"
  shows "\<exists>k. x_key_pair X cert key = Inr k \<and> tc_Certificates tls = tc_Certificates conf @ [k] \<and>
    tc_ClientAuth tls = tc_ClientAuth conf \<and> tc_RootCAs tls = tc_ClientCAs tls \<and>
    (if ca = [] then tc_ClientCAs tls = None else x_append X ca \<noteq> None \<and> tc_ClientCAs tls = x_append X ca) \<and> cert \<noteq> [] \<and> key \<noteq> []"
  using assms by (auto simp: LoadCertificate_def LoadRootCa_def LoadKeyPair_def bind_result_Ok_iff split: if_splits option.splits)

text \<open>
  C23: A server outside of dev mode always demands and verifies client certificates: when \<open>NewServer\<close> succeeds, the transport has exactly
  the configured key pair and requires a certificate of the client, checked against the configured authority if there is one; in dev mode
  there are no credentials at all. The limit on received messages is positive in either case, whatever options were given.
\<close>

theorem NewServer_credentials:
  assumes "NewServer X db opts = Ok srv" and "conf = apply_options opts defaultOption"
  shows "0 < sint (srv_maxRecv srv) \<and> ws_config (srv_service srv) = conf \<and> ws_db (srv_service srv) = db \<and>
    (if sc_dev conf then srv_creds srv = None
     else \<exists>tls k. srv_creds srv = Some tls \<and> tc_ClientAuth tls \<and> tc_Certificates tls = [k] \<and>
       x_key_pair X (sc_cert conf) (sc_key conf) = Inr k \<and>
       (sc_ca conf \<noteq> [] \<longrightarrow> tc_ClientCAs tls \<noteq> None \<and> tc_ClientCAs tls = x_append X (sc_ca conf)))"
  using assms apply_options_limit [OF default_limit, of opts]
  by (auto simp: NewServer_def Let_def bind_result_Ok_iff split: if_splits dest!: LoadCertificate_ok)

definition sample_x509 :: "(bytes, bytes) x509" where
  "sample_x509 = \<lparr>x_append = (\<lambda>ca. if ca = [] then None else Some ca), x_key_pair = (\<lambda>cert key. Inr (cert @ key))\<rparr>"

definition sample_options :: "server_option list" where
  "sample_options = [WithGrpcMaxRecvSize (- 5), WithCredentials [1] [2], WithCertificateAuthority [3], WithDevMode False]"

definition sample_server :: "(mem, mem_entropy, bytes, bytes) Server" where
  "sample_server = \<lparr>srv_maxRecv = DefaultGrpcMaxRecvSize,
     srv_creds = Some \<lparr>tc_Certificates = [[1, 2]], tc_RootCAs = Some [3], tc_ClientCAs = Some [3], tc_ClientAuth = True\<rparr>,
     srv_service = \<lparr>ws_db = ws_db mem_service, ws_config = apply_options sample_options defaultOption\<rparr>\<rparr>"

lemma sample_NewServer: "NewServer sample_x509 (ws_db mem_service) sample_options = Ok sample_server"
  by (simp add: NewServer_def sample_options_def apply_options_def defaultOption_def LoadCertificate_def LoadRootCa_def LoadKeyPair_def
      sample_x509_def sample_server_def)

theorem NewServer_credentials_witness:
  "NewServer sample_x509 (ws_db mem_service) sample_options = Ok sample_server \<and>
   0 < sint (srv_maxRecv sample_server) \<and> (\<exists>tls. srv_creds sample_server = Some tls \<and> tc_ClientAuth tls)"
  using NewServer_credentials [OF sample_NewServer refl] sample_NewServer
  by (auto simp: sample_server_def sample_options_def apply_options_def defaultOption_def)

text \<open>
  C24: \<open>NewServer\<close> refuses to start without a certificate: outside of dev mode, with no certificate, no key, an unusable authority or a
  pair that does not match, it returns an error, and no combination of options makes it panic.
\<close>

theorem NewServer_refuses:
  assumes "conf = apply_options opts defaultOption" and "\<not> sc_dev conf"
    and "sc_cert conf = [] \<or> sc_key conf = [] \<or> (sc_ca conf \<noteq> [] \<and> x_append X (sc_ca conf) = None) \<or>
      (\<exists>e. x_key_pair X (sc_cert conf) (sc_key conf) = Inl e)"
  shows "\<exists>e. NewServer X db opts = Err e"
  using assms
  by (auto simp: NewServer_def Let_def LoadCertificate_def LoadRootCa_def LoadKeyPair_def split: option.splits)

theorem NewServer_refuses_witness:
  "\<exists>e. NewServer sample_x509 (ws_db mem_service) [WithGrpcMaxRecvSize 10, WithDevMode False] = Err e"
  by (rule NewServer_refuses [OF refl]) (simp_all add: apply_options_def defaultOption_def)

subsection \<open>Status\<close>

text \<open>
  C25: \<open>Status\<close> of a running server reports the configuration the server was built with: the positive message limit, the path and the
  collection interval of its database, dev mode exactly when the transport has no credentials, and mutual TLS whenever it is not in dev
  mode.
\<close>

theorem Status_reports:
  assumes "NewServer X db opts = Ok srv" and "Status L None (srv_service srv) = Ok st"
  shows "ss_GrpcMaxReceiveBytes st = srv_maxRecv srv \<and> ss_DbPath st = bc_Path (db_config db) \<and>
    ss_GcInterval st = bc_GcInterval (db_config db) \<and> ss_DbSize st = fst (bg_size L (db_db db)) + snd (bg_size L (db_db db)) \<and>
    (\<not> ss_DevMode st \<longrightarrow> ss_GrpcMTls st \<and> srv_creds srv \<noteq> None) \<and> (ss_DevMode st \<longleftrightarrow> srv_creds srv = None)"
  using assms
  by (auto simp: NewServer_def Status_def Let_def bind_result_Ok_iff Size_def Path_def GcInterval_def split: if_splits prod.splits
      dest!: LoadCertificate_ok)

theorem Status_reports_witness:
  "\<exists>st. Status mem_lib None (srv_service sample_server) = Ok st \<and> ss_GrpcMTls st \<and>
     ss_GrpcMaxReceiveBytes st = DefaultGrpcMaxRecvSize"
proof -
  obtain st where st: "Status mem_lib None (srv_service sample_server) = Ok st"
    by (cases "Size mem_lib (ws_db (srv_service sample_server))") (simp add: Status_def Let_def)
  have "\<not> ss_DevMode st"
    using st by (auto simp: Status_def Let_def sample_server_def sample_options_def apply_options_def defaultOption_def split: prod.splits)
  with Status_reports [OF sample_NewServer st] st show ?thesis by (auto simp: sample_server_def)
qed

subsection \<open>Requests that are refused\<close>

text \<open>
  C26: A rate above the server's limit is refused before the database is read: the client gets one message, the error
  \<open>InvalidOption\<close>, and the call ends with the outcome of sending it.
\<close>

theorem Paste_rate_limit:
  assumes "sint (sc_grpcMaxRecvSize (ws_config s)) < sint (effective_rate opt)"
  shows "Paste L s opt srv = (let (e, srv1) = stream_Send srv (past_error
    (str ''transfer rate is above the server configuration limit'') InvalidOption) in (lift_err e, srv1))"
  using assms by (simp add: Paste_def effective_rate_def Let_def grpcSender_SendError_def err_rate_def)

definition greedy_option :: PasteOption where
  "greedy_option = \<lparr>po_TransferRate = push_bit 20 201, po_unknownFields = []\<rparr>"

theorem Paste_rate_limit_witness:
  "Paste mem_lib mem_service greedy_option open_outbox = (Ok (), \<lparr>out_sent = [past_error
    (str ''transfer rate is above the server configuration limit'') InvalidOption], out_errs = []\<rparr>)"
proof -
  have "sint (sc_grpcMaxRecvSize (ws_config mem_service)) < sint (effective_rate greedy_option)"
    by (simp add: mem_service_def defaultOption_def effective_rate_def greedy_option_def DefaultGrpcMaxRecvSize_def push_bit_eq_mult)
  from Paste_rate_limit [OF this, of mem_lib open_outbox] show ?thesis by (simp add: open_outbox_def stream_Send.simps)
qed

text \<open>
  C39: A negative rate is not refused: the handler allocates its buffer with \<^verbatim>\<open>make([]byte, rate)\<close> and panics, before anything is
  sent.
\<close>

theorem Paste_negative_rate_panics:
  assumes "sint (po_TransferRate opt) < 0" and "0 \<le> sint (sc_grpcMaxRecvSize (ws_config s))"
  shows "Paste L s opt srv = (Panic MakeSliceLen, srv)"
  using assms by (auto simp: Paste_def Let_def)

theorem Paste_negative_rate_panics_witness:
  "Paste mem_lib mem_service \<lparr>po_TransferRate = - 1, po_unknownFields = []\<rparr> open_outbox = (Panic MakeSliceLen, open_outbox)"
  by (rule Paste_negative_rate_panics) (simp_all add: mem_service_def defaultOption_def DefaultGrpcMaxRecvSize_def push_bit_eq_mult)



text \<open>
  C22: What a successful copy leaves in the store: the record of the clipboard carries the number of bytes that were received and the checksum,
  and the chunks are the received bytes cut into blocks of the chunk size of the database, none longer than that.
\<close>

theorem Copy_stores_blocks:
  assumes "lib_laws L V" and "svc_inv L V s" and "cs_Data m = Some (CS_Info fi)" and "copy_fin e ms = EOF"
    and "alive (Some (effective_ttl fi))" and "Copy L s \<lparr>in_msgs = m # ms, in_end = e\<rparr> None = (Ok (), s')"
  shows "\<exists>cb. clip L V s' = Some (cb, blocks (db_chunkSize (ws_db s)) (concat (copy_chunks ms))) \<and>
    cb_Size cb = word_of_nat (length (concat (copy_chunks ms))) \<and> cb_Checksum cb = copy_sum [] ms \<and>
    (\<forall>c \<in> set (blocks (db_chunkSize (ws_db s)) (concat (copy_chunks ms))). length c \<le> db_chunkSize (ws_db s))"
  using Copy_ok_lemma(3) [OF assms] by (auto simp: new_clipboard_def length_blocks)

theorem Copy_stores_blocks_witness:
  "\<exists>cb. clip mem_lib mem_view sample_service = Some (cb, [[10, 11, 12, 13], [14]]) \<and> cb_Size cb = 5"
proof -
  have b: "blocks 4 [10, 11, 12, 13, 14 :: byte] = [[10, 11, 12, 13], [14]]" by (simp add: blocks.simps)
  from Copy_stores_blocks [OF mem_laws mem_service_inv sample_info_msg sample_msgs_simps(1) sample_ttl sample_copy_run]
  show ?thesis by (auto simp: sample_msgs_simps mem_service_def b)
qed

end
