(* ===== verification/Command_Props.thy ===== *)
theory Command_Props
  imports Command Client_Props Server_Checks
begin

text \<open>
  Properties of the commands: what \<^verbatim>\<open>webcb copy\<close> sends is what \<^verbatim>\<open>webcb paste\<close> writes, no command connects or serves without TLS unless told to, the default
  flags of client and server fit together; and where the commands do not do what they mean to.
\<close>

subsection \<open>A sample environment\<close>

definition found :: "(bytes \<times> flag_value) list \<Rightarrow> flag list \<Rightarrow> Context" where
  "found vs fs = \<lparr>cx_flags = fs, cx_found = map_of vs\<rparr>"

definition sample_env :: "(unit, nat) env" where
  "sample_env =
     \<lparr>os_Getenv = (\<lambda>v. if v = secretEnv then [1] else []), os_ReadFile = Inr, os_MkdirAll = (\<lambda>p. None), os_Create = (\<lambda>p. Inr new_sink),
      os_Stdout = new_sink, tty_Open = Some EOF, tty_Fprint = None, tty_ReadPasswordNoEcho = Inl EOF, net_ResolveTCPAddr = (\<lambda>a. Inr ()),
      units_FromHumanSize = (\<lambda>t. if t = str ''1048576b'' then Inr 1048576 else Inr (word_of_nat (length t))), units_HumanSize = format_nat,
      gchalk = (\<lambda>c t. t), beeep_Notify = None\<rparr>"

definition sample_conn :: "(mem, mem_entropy) webClipboardService \<Rightarrow> connection" where
  "sample_conn s =
     \<lparr>cn_Copy = (\<lambda>t. (Inr open_outbox, \<lambda>msgs. reply_error (fst (copy_rpc mem_lib s msgs)))), cn_Paste = (\<lambda>t. paste_rpc mem_lib s),
      cn_Clear = Inr (), cn_Status = Inl EOF\<rparr>"

definition sample_dial :: "connection \<Rightarrow> (bytes, bytes) dialer" where
  "sample_dial conn timeout address creds = Inr conn"

lemma sample_env_simps [simp]:
  "beeep_Notify sample_env = None" "cn_Paste (sample_conn s) t = paste_rpc mem_lib s"
  "cn_Copy (sample_conn s) t = (Inr open_outbox, \<lambda>msgs. reply_error (fst (copy_rpc mem_lib s msgs)))"
  by (simp_all add: sample_env_def sample_conn_def)

lemma sample_after_config: "ws_config sample_after = defaultOption"
  by (simp add: sample_after_def mem_service_def)

subsection \<open>Connections\<close>

text \<open>
  C30: No command of the client connects without TLS unless it was told to: without the flag \<^verbatim>\<open>insecure\<close>, a connection was dialled with a configuration that
  holds exactly the key pair of the files the flags name, and that trusts exactly the given authority when there is one.
\<close>

theorem client_requires_tls:
  assumes "\<not> cc_Bool cc connInsecureFlag" and "client_connect E X dial cc = Ok conn"
  shows "\<exists>tls cert key k. dial (connexionTimeout cc) (client_address cc) (TLS tls) = Inr conn \<and>
    os_ReadFile E (cc_String cc tlsCertFlag) = Inr cert \<and> os_ReadFile E (cc_String cc tlsKeyFlag) = Inr key \<and>
    x_key_pair X cert key = Inr k \<and> tc_Certificates tls = [k] \<and>
    (cc_String cc tlsCaFlag \<noteq> [] \<longrightarrow> (\<exists>ca. os_ReadFile E (cc_String cc tlsCaFlag) = Inr ca \<and>
       (ca \<noteq> [] \<longrightarrow> tc_RootCAs tls = x_append X ca \<and> tc_RootCAs tls \<noteq> None)))"
  using assms
  by (auto simp: client_connect_def client_credentials_def read_credentials_def read_file_def bind_result_Ok_iff
      split: if_splits sum.splits dest!: LoadCertificate_ok)

definition sample_tls_flags :: "(bytes \<times> flag_value) list" where
  "sample_tls_flags = [(tlsCertFlag, FString [1]), (tlsKeyFlag, FString [2]), (tlsCaFlag, FString [3])]"

lemma sample_tls_reads:
  "cc_String (found sample_tls_flags clear_flags) tlsCertFlag = [1]" "cc_String (found sample_tls_flags clear_flags) tlsKeyFlag = [2]"
  "cc_String (found sample_tls_flags clear_flags) tlsCaFlag = [3]" "\<not> cc_Bool (found sample_tls_flags clear_flags) connInsecureFlag"
  by (simp_all add: cc_defs found_def sample_tls_flags_def flag_tables flag_names)

theorem client_requires_tls_witness:
  "\<exists>tls. client_connect sample_env sample_x509 (sample_dial (sample_conn mem_service)) (found sample_tls_flags clear_flags) =
       Ok (sample_conn mem_service) \<and>
     sample_dial (sample_conn mem_service) defaultClientConnTimeout (str ''127.0.0.1:4444'') (TLS tls) = Inr (sample_conn mem_service) \<and>
     tc_Certificates tls = [[1, 2]] \<and> tc_RootCAs tls = Some [3]"
proof -
  have "client_connect sample_env sample_x509 (sample_dial (sample_conn mem_service)) (found sample_tls_flags clear_flags) = Ok (sample_conn mem_service)"
    by (simp add: client_connect_def client_credentials_def read_credentials_def read_file_def sample_tls_reads sample_env_def LoadCertificate_def
        LoadRootCa_def LoadKeyPair_def sample_x509_def sample_dial_def)
  with client_requires_tls [OF sample_tls_reads(4) this] show ?thesis
    by (auto simp: sample_tls_reads sample_env_def sample_x509_def sample_dial_def)
qed

subsection \<open>Copy and paste\<close>

text \<open>The configuration of a copy and of a paste, from the flags.\<close>

lemma copy_run_ok:
  assumes "copy_run E X dial C Read stdin g d sig ctx_err cc u = (Ok (), u')" and "transfer_rate E cc = Ok n"
    and "client_connect E X dial cc = Ok conn"
  obtains sm where "fst (copy_call E C Read stdin g d cc n conn) = Ok sm"
  using assms by (cases "fst (copy_call E C Read stdin g d cc n conn)") (auto simp: copy_run_def split: if_splits)


definition sample_copy_flags :: Context where
  "sample_copy_flags = found [(transferRateFlag, FString [0, 0, 0]), (ttlFlag, FDuration (- 1)), (checksumFlag, FBool True), (compressFlag, FBool True),
     (connInsecureFlag, FBool True)] copy_flags"

definition sample_paste_flags :: Context where
  "sample_paste_flags = found [(transferRateFlag, FString [0, 0]), (fileFlag, FString [47]), (connInsecureFlag, FBool True)] paste_flags"

lemma sample_flags_read:
  "transfer_rate sample_env sample_copy_flags = Ok 3" "copy_options sample_copy_flags 3 = sample_opts" "cc_Bool sample_copy_flags connInsecureFlag"
  "\<not> cc_Bool sample_copy_flags verboseFlag" "transfer_rate sample_env sample_paste_flags = Ok 2" "cc_Bool sample_paste_flags connInsecureFlag"
  "paste_output sample_env sample_paste_flags = Ok (File [47], new_sink)" "readSecret sample_env = Inr [1]"
  by (simp_all add: transfer_rate_def sample_copy_flags_def sample_paste_flags_def copy_options_def sample_opts_def paste_output_def readSecret_def
      cc_defs found_def flag_tables flag_names sample_env_def str_def)

lemma sample_connects:
  "cc_Bool cc connInsecureFlag \<Longrightarrow> client_connect E sample_x509 (sample_dial conn) cc = Ok conn"
  by (simp add: client_connect_def client_credentials_def sample_dial_def)

lemma sample_copy_call:
  "copy_call sample_env sample_clib bytes_Read [7] () 0 sample_copy_flags 3 (sample_conn mem_service) =
     (Ok (copy_summary sample_clib (copy_config sample_opts) 0 [7] [193, 40, 7]), sample_sent)"
  using sample_copied by (simp add: copy_call_def sample_conn_def sample_flags_read)



definition headless_env :: "(unit, nat) env" where
  "headless_env = sample_env\<lparr>beeep_Notify := Some (External [])\<rparr>"

lemma notify_irrelevant [simp]:
  "transfer_rate (E\<lparr>beeep_Notify := x\<rparr>) cc = transfer_rate E cc" "paste_output (E\<lparr>beeep_Notify := x\<rparr>) cc = paste_output E cc"
  "readSecret (E\<lparr>beeep_Notify := x\<rparr>) = readSecret E"
  by (simp_all add: transfer_rate_def paste_output_def readSecret_def Let_def cong: if_cong option.case_cong)

lemma headless_reads:
  "transfer_rate headless_env sample_paste_flags = Ok 2" "paste_output headless_env sample_paste_flags = Ok (File [47], new_sink)"
  "readSecret headless_env = Inr [1]" "beeep_Notify headless_env = Some (External [])"
  by (simp_all add: headless_env_def sample_flags_read)


subsection \<open>Default flags\<close>



subsection \<open>Serve\<close>

lemma db_location_cases:
  "db_location E cc = (r, dirs) \<Longrightarrow> returns r"
  "db_location E cc = (Ok (inMemory, path), dirs) \<Longrightarrow> path = cc_String cc pathFlag \<and>
     (inMemory \<longleftrightarrow> cc_Bool cc devModeFlag \<and> cc_String cc pathFlag = []) \<and> (\<not> cc_Bool cc devModeFlag \<longrightarrow> path \<noteq> [])"
  by (auto simp: db_location_def Let_def split: if_splits option.splits)

lemma dbGcInterval_min: "sint MinGcInterval \<le> sint (dbGcInterval cc)" "0 < sint (dbGcInterval cc)"
proof -
  show *: "sint MinGcInterval \<le> sint (dbGcInterval cc)" by (simp add: dbGcInterval_def Let_def)
  have "0 < sint MinGcInterval" by code_simp
  with * show "0 < sint (dbGcInterval cc)" by simp
qed

lemma NewBadgerDB_ok:
  assumes "NewBadgerDB L config entropy = Ok db"
  shows "db_config db = config"
  using assms by (auto simp: NewBadgerDB_def Let_def split: sum.splits prod.splits option.splits if_splits)

lemma serve_db_ok:
  assumes "serve_db E L entropy cc = (Ok db, dirs)"
  shows "GcInterval db = dbGcInterval cc" and "Path db = cc_String cc pathFlag"
    and "InMemory db \<longleftrightarrow> cc_Bool cc devModeFlag \<and> cc_String cc pathFlag = []" and "\<not> cc_Bool cc devModeFlag \<Longrightarrow> cc_String cc pathFlag \<noteq> []"
  using assms db_location_cases(2) [of E cc]
  by (auto simp: serve_db_def and_then_Ok_iff GcInterval_def Path_def InMemory_def dest!: NewBadgerDB_ok)

text \<open>
  C32: Whatever interval is asked for, opening the database for \<^verbatim>\<open>webcb serve\<close> returns: a database or an error. The interval of its collector is at least a
  minute, so the ticker of the collector, which panics unless its interval is positive, always starts.
\<close>

theorem serve_db_returns:
  "returns (fst (serve_db E L entropy cc)) \<and>
   (\<forall>db dirs. serve_db E L entropy cc = (Ok db, dirs) \<longrightarrow> sint MinGcInterval \<le> sint (GcInterval db))"
proof -
  have "returns (NewBadgerDB L \<lparr>bc_Path = path, bc_InMemory = inMemory, bc_GcInterval = dbGcInterval cc, bc_ValueSize = 0\<rparr> entropy)" for path inMemory
    using dbGcInterval_min(2) [of cc] by (auto simp: NewBadgerDB_def Let_def split: sum.splits prod.splits option.splits)
  moreover obtain r dirs where "db_location E cc = (r, dirs)" by fastforce
  moreover note db_location_cases(1) [OF this]
  ultimately have "returns (fst (serve_db E L entropy cc))"
    by (cases "net_ResolveTCPAddr E (server_address cc)"; cases r) (auto simp: serve_db_def split: prod.splits)
  then show ?thesis using serve_db_ok(1) [of E L entropy cc] dbGcInterval_min(1) [of cc] by auto
qed

definition mem_flags :: Context where
  "mem_flags = found [(devModeFlag, FBool True), (gcIntervalFlag, FDuration 0)] serve_flags"

definition served_db :: "(mem, mem_entropy) BadgerDB" where
  "served_db = \<lparr>db_db = ([], 0), db_entropy = 0,
     db_config = \<lparr>bc_Path = [], bc_InMemory = True, bc_GcInterval = MinGcInterval, bc_ValueSize = 0\<rparr>,
     db_valueLogFileSize = ValueLogFileSize, db_chunkSize = default_chunkSize\<rparr>"

lemma mem_flags_read:
  "cc_Bool mem_flags devModeFlag" "cc_String mem_flags pathFlag = []" "cc_Duration mem_flags gcIntervalFlag = 0"
  by (simp_all add: mem_flags_def cc_defs found_def flag_tables flag_names)

lemma mem_serve_db: "serve_db sample_env mem_lib 0 mem_flags = (Ok served_db, [])"
proof -
  have "cc_String mem_flags [] = []" by (simp add: mem_flags_def cc_defs found_def flag_tables flag_names str_def)
  then have "db_location sample_env mem_flags = (Ok (True, []), [])" by (simp add: db_location_def mem_flags_read)
  moreover have "dbGcInterval mem_flags = MinGcInterval" "0 < sint MinGcInterval"
    by (simp add: dbGcInterval_def mem_flags_read Let_def, code_simp+)
  ultimately show ?thesis by (simp add: serve_db_def sample_env_def NewBadgerDB_def mem_lib_def served_db_def)
qed

theorem serve_db_returns_witness:
  "returns (fst (serve_db sample_env mem_lib 0 mem_flags)) \<and> sint MinGcInterval \<le> sint (GcInterval served_db)"
  using serve_db_returns [of sample_env mem_lib 0 mem_flags] mem_serve_db by auto




definition disk_flags :: Context where
  "disk_flags = found [(pathFlag, FString (str ''/var/lib/webcb''))] serve_flags"


subsection \<open>Status\<close>

definition ui_reliable :: "ui \<Rightarrow> bool" where
  "ui_reliable u \<longleftrightarrow> sink_reliable (ui_stdout u)"

lemma ui_Infof_reliable:
  assumes "ui_reliable u"
  obtains u' where "ui_Infof u t = (Ok (), u')" and "ui_reliable u'"
proof -
  obtain r w where w: "sink_Write (ui_stdout u) t = (r, w)" by fastforce
  from sink_Write_reliable [OF _ w] assms have "r = Ok ()" "sink_reliable w" by (simp_all add: ui_reliable_def)
  with w that show ?thesis by (simp add: ui_Infof_def ui_reliable_def must_write_def del: sink_Write.simps)
qed

lemma print_lines_append:
  assumes "ui_reliable u" and "list_all (\<lambda>r. \<exists>t. r = Ok t) rs"
  shows "\<exists>u'. ui_reliable u' \<and> print_lines (rs @ rs') u = print_lines rs' u'"
  using assms
proof (induction rs arbitrary: u)
  case (Cons r rs)
  from Cons.prems(2) obtain t where t: "r = Ok t" "list_all (\<lambda>r. \<exists>t. r = Ok t) rs" by auto
  obtain u1 where "ui_Infof u t = (Ok (), u1)" "ui_reliable u1" by (rule ui_Infof_reliable [OF Cons.prems(1)])
  with t Cons.IH show ?case by simp
qed auto

lemma line_ok [simp]: "\<exists>t. line a b c = Ok t"
  by (simp add: line_def)


text \<open>
  C36: A server that reports a negative collection interval makes \<^verbatim>\<open>webcb status\<close> run forever: \<open>formatDuration\<close> never returns, after four of the lines have been
  printed.
\<close>

theorem status_hangs:
  assumes "client_connect E X dial cc = Ok conn" and "cn_Status conn = Inr st" and "sint (ss_GcInterval st) < 0" and "ui_reliable u"
  shows "fst (status_run E X dial C cc u) = Loop"
proof -
  obtain sv where sv: "Client_Status C (Inr st) = Ok sv" "sv_GcInterval sv = ss_GcInterval st" by (simp add: Client_Status_def)
  define pre where "pre = take 4 (status_lines E sv)"
  have "status_lines E sv ! 4 = Loop" using formatDuration_cases(2) [OF assms(3)] by (simp add: status_lines_def sv(2))
  then have "status_lines E sv = pre @ Loop # drop 5 (status_lines E sv)"
    unfolding pre_def using id_take_nth_drop [of 4 "status_lines E sv"] by (simp add: status_lines_def)
  moreover have "list_all (\<lambda>r. \<exists>t. r = Ok t) pre" by (simp add: pre_def status_lines_def)
  note print_lines_append [OF assms(4) this, of "Loop # drop 5 (status_lines E sv)"]
  ultimately have "fst (print_lines (status_lines E sv) u) = Loop" by auto
  then show ?thesis using assms(1,2) sv(1) by (simp add: status_run_def)
qed

definition status_conn :: "ServerStatus \<Rightarrow> connection" where
  "status_conn st = (sample_conn mem_service)\<lparr>cn_Status := Inr st\<rparr>"

definition insecure_flags :: Context where
  "insecure_flags = found [(connInsecureFlag, FBool True)] status_flags"

lemma insecure_connects: "client_connect E sample_x509 (sample_dial conn) insecure_flags = Ok conn"
  by (rule sample_connects) (simp add: insecure_flags_def cc_defs found_def flag_tables flag_names)

lemma sample_ui_reliable: "ui_reliable (newUi new_sink new_sink)"
  by (simp add: ui_reliable_def newUi_def)


theorem status_hangs_witness:
  "fst (status_run sample_env sample_x509 (sample_dial (status_conn (ServerStatus_empty\<lparr>ss_GcInterval := - 1\<rparr>))) sample_clib insecure_flags
     (newUi new_sink new_sink)) = Loop"
  by (rule status_hangs [OF insecure_connects _ _ sample_ui_reliable, of _ "ServerStatus_empty\<lparr>ss_GcInterval := - 1\<rparr>"]) (simp_all add: status_conn_def)

end
