(* ===== verification/Spec2Isabelle.thy ===== *)
theory Spec2Isabelle
  imports Codec Command_Props
begin

text \<open>
  \<^bold>\<open>webcb, a clipboard over the network: a verification.\<close>

  \<^bold>\<open>The program.\<close> A server keeps one clipboard in a Badger database and offers four gRPC calls: \<open>Copy\<close> (a stream of an info header, chunks and a checksum replaces
  the clipboard), \<open>Paste\<close> (the clipboard comes back as such a stream), \<open>Clear\<close> and \<open>Status\<close>. The client cuts its input into chunks, after compressing and
  encrypting it if asked to, and undoes that on the way back. A collector goroutine deletes the chunks of clipboards that were replaced. A command line puts these
  parts together.

  \<^bold>\<open>The theories, from the bytes up.\<close>
  \<^item> \<open>Prelude\<close>: byte strings, decimal formatting, error values (\<open>goerr\<close>, with \<^verbatim>\<open>errors.Is\<close>), outcomes (\<open>result\<close>: a value, an error, a panic, or a loop that
    does not end), slices, the cutting of data into blocks.
  \<^item> \<open>Wire\<close>, \<open>Wire_Decode\<close>, \<open>Messages\<close>, \<open>Messages_Stream\<close>, \<open>Codec\<close>: the nine protobuf messages of \<^verbatim>\<open>proto/cp.pb.go\<close> as records, with \<open>SizeVT\<close>, \<open>MarshalVT\<close> and
    \<open>UnmarshalVT\<close> of \<^verbatim>\<open>proto/cp_vtproto.pb.go\<close>, and the codec of \<^verbatim>\<open>command/grpc_codec.go\<close>. Shown: decoding undoes encoding for every message the program
    builds, sizes are exact, and decoding never panics or loops, on any input.
  \<^item> \<open>Grpc_Writer\<close>, \<open>Grpc_Reader\<close>: \<^verbatim>\<open>internal/grpc\<close>. The locales \<open>chunk_sender\<close> and \<open>chunk_receiver\<close> are the Go interfaces \<open>Sender\<close> and \<open>Receiver\<close> with
    their contracts; \<open>Write\<close>, \<open>Flush\<close> and \<open>Read\<close> are proved once over them. \<open>Streams\<close>: the two ends of a gRPC stream and the wire between them, codec and size limit included.
  \<^item> \<open>Storage\<close>, \<open>Storage_Write\<close>, \<open>Storage_Read\<close>: \<^verbatim>\<open>storage/badger.go\<close> and \<^verbatim>\<open>storage/batch_writer.go\<close>. The record \<open>lib\<close> holds the operations of Badger, the ULID source and the
    protobuf runtime; \<open>Storage_Laws\<close> states what is assumed of them (\<open>lib_laws\<close>, with the view \<open>V\<close> of a database as the map of its live keys) and the
    invariant of the store. \<open>Storage_Sample\<close> is a database in memory that satisfies the laws.
  \<^item> \<open>Storage_Gc\<close>, \<open>Storage_Gc_Props\<close>, \<open>Collector\<close>: \<^verbatim>\<open>storage/gc.go\<close> and the tick of the collector. Shown: a collection keeps the clipboard and locked versions, and one that is not
    cut off leaves nothing else; and that a collection in the middle of a large copy loses data, because Badger commits parts of a batch before the version is locked.
  \<^item> \<open>Server\<close>, \<open>Server_Props\<close>, \<open>Server_Checks\<close>: \<^verbatim>\<open>server/*.go\<close> and \<^verbatim>\<open>internal/tls/tls.go\<close>. Shown: what was copied is pasted, a copy that fails at any point changes nothing, every
    copy returns; credentials, limits, status; and the requests that make a handler panic.
  \<^item> \<open>Service\<close>: the service as a state machine. The locale \<open>simulation\<close>, interpreted on it, gives that every run of copies, clears, collections and expiries is a run of a
    register that holds at most one content, and \<open>Paste\<close> reads this register.
  \<^item> \<open>Client\<close>, \<open>Client_Calls\<close>, \<open>Client_Copy\<close>, \<open>Client_Paste\<close>: \<^verbatim>\<open>client/*.go\<close> and \<^verbatim>\<open>internal/crypto/kdf.go\<close>. The record \<open>clib\<close> holds scrypt, HKDF, the cipher streams of \<^verbatim>\<open>sio\<close>,
    zstd, SHA-256 and the random source; \<open>Client_Laws\<close> states their laws (\<open>clib_laws\<close>, and \<open>authentic\<close> for the ideal cipher) and what a reader delivers, as inductive
    predicates; \<open>Client_Sample\<close> has libraries that satisfy them.
  \<^item> \<open>End_To_End\<close>, \<open>Round_Trip\<close>, \<open>Client_Props\<close>: client and server together, through the wire. Shown: what one client copies another pastes; a paste of data that is broken,
    altered or does not match its checksum does not succeed; errors of the server are reported.
  \<^item> \<open>Flags\<close>, \<open>Ui\<close>, \<open>Command\<close>, \<open>Command_Props\<close>: \<^verbatim>\<open>command/*.go\<close>. The tables of flags, the five commands, the output. Shown: the round trip for the commands, TLS unless told
    otherwise, defaults that fit together, status of a served server; and where the commands fail: a directory that is not made, a status that hangs, a notification that
    decides the exit code.

  \<^bold>\<open>How the model reads.\<close> Methods with a receiver are functions that return the updated record. Loops are structural recursions, functions with a measure, or
  \<^theory_text>\<open>partial_function (option)\<close> where the code may loop; for these, not returning is the value \<open>None\<close> and the outcome \<open>Loop\<close>, and returning is proved, never
  assumed. Integers of 64 bits are words and read by \<open>sint\<close> or \<open>unat\<close> as in the code; counters that only count bytes in memory (\<^verbatim>\<open>int\<close> indices, bytes sent) are natural
  numbers. The size limit of a message, its length prefix and the time to live keep their widths. Outcomes of gRPC, the file system, the terminal and the network
  are arguments, so results hold for every behaviour of them.

  \<^bold>\<open>Not modelled.\<close> Concurrency inside a process: the mutex of the database, and handlers that overlap (calls and collections are interleaved as whole steps, except in the result
  on a collection during a copy, where the steps of both are explicit). Logging. The transport of gRPC and TLS itself, the generated stubs of
  \<^verbatim>\<open>proto/cp_grpc.pb.go\<close>, reflection data in \<^verbatim>\<open>proto/cp.pb.go\<close>. The seeding of the random source in \<^verbatim>\<open>init\<close>, parsing of the command line by its library, floating point
  (\<^verbatim>\<open>float64\<close> values are an abstract type), colours. \<^verbatim>\<open>internal/tools\<close> has no code.
\<close>

end
